theory Spec2Isabelle
  imports Complex_Main "HOL-Library.Sublist"
begin

section \<open>The annotation dashboard (App.js)\<close>

text \<open>
  The dashboard is one React component. Its \<open>useState\<close> variables are the fields of the
  record \<open>dashboard\<close>; every handler of the component is a function on that state. An
  \<open>async\<close> handler runs up to its \<open>await\<close>, leaves a continuation behind and is resumed
  when the HTTP call settles, so each of them is split in two: the part before the
  \<open>await\<close> (named as in the source) and the part after it (suffix \<open>_resume\<close>). What the
  component does to the outside (HTTP calls, toasts, downloads) is appended to a log.
\<close>

subsection \<open>Data\<close>

type_synonym ident = string

text \<open>A text sample as the dashboard reads it (\<open>id\<close>, \<open>text\<close>, \<open>source\<close>, \<open>topic\<close>).\<close>

record text_sample =
  sample_id :: ident
  sample_text :: string
  source :: "string option"
  topic :: "string option"
  created_at :: nat

text \<open>The body of \<open>POST /annotations\<close> (\<open>annotationData\<close>, lines 104-109).\<close>

record annotationData =
  text_sample_id :: ident
  quality_level :: string
  issue_tags :: "string list"
  annotation_notes :: "string option"

text \<open>The body of \<open>POST /pairwise-comparisons\<close> (\<open>comparisonData\<close>, lines 139-143).\<close>

record comparisonData =
  text_a_id :: ident
  text_b_id :: ident
  better_text_id :: ident

text \<open>
  The analytics summary the dashboard shows (lines 475-502). Its field
  \<open>annotation_progress\<close>, which the dashboard only prints, is left out.
\<close>

record summary =
  total_samples :: nat
  total_annotations :: nat
  total_comparisons :: nat
  quality_distribution :: "(string \<times> nat) list"

record ui_option =
  opt_value :: string
  opt_label :: string
  opt_color :: "string option"

definition qualityOptions :: "ui_option list" where
  "qualityOptions =
     [\<lparr>opt_value = ''good'', opt_label = ''Good'', opt_color = Some ''bg-green-500''\<rparr>,
      \<lparr>opt_value = ''average'', opt_label = ''Average'', opt_color = Some ''bg-yellow-500''\<rparr>,
      \<lparr>opt_value = ''poor'', opt_label = ''Poor'', opt_color = Some ''bg-red-500''\<rparr>]"

definition issueOptions :: "ui_option list" where
  "issueOptions =
     [\<lparr>opt_value = ''grammar_error'', opt_label = ''Grammar Error'', opt_color = None\<rparr>,
      \<lparr>opt_value = ''irrelevant_content'', opt_label = ''Irrelevant Content'', opt_color = None\<rparr>,
      \<lparr>opt_value = ''harmful_unsafe'', opt_label = ''Harmful/Unsafe'', opt_color = None\<rparr>,
      \<lparr>opt_value = ''incomplete_truncated'', opt_label = ''Incomplete/Truncated'',
       opt_color = None\<rparr>]"

text \<open>
  The component's state: one field for each \<open>useState\<close> (lines 20-33); \<open>notesText\<close> is
  the variable \<open>notes\<close>. The variable \<open>annotations\<close> is never read or written and is left out.
\<close>

record dashboard =
  textSamples :: "text_sample list"
  currentSampleIndex :: int
  analytics :: "summary option"
  loading :: bool
  selectedQuality :: string
  selectedIssues :: "string list"
  notesText :: string
  pairwiseTexts :: "text_sample list"
  pairwiseLoading :: bool

text \<open>What the component does to the outside. Paths are relative to \<open>API\<close>.\<close>

datatype body =
  NoBody
  | AnnotationBody annotationData
  | ComparisonBody comparisonData
  | FormData string

datatype effect =
  Get string
  | Post string body
  | ToastError string
  | ToastSuccess string
  | Download string

text \<open>
  The continuation an \<open>await\<close> leaves behind. \<open>submitAnnotation\<close> reads
  \<open>currentSampleIndex\<close> and \<open>textSamples.length\<close> after its \<open>await\<close>: they are the values
  of the render in which the button was clicked, so the continuation carries them.
\<close>

datatype continuation =
  K_fetchTextSamples
  | K_fetchAnalytics
  | K_fetchPairwiseTexts
  | K_initializeSampleData
  | K_submitAnnotation int nat
  | K_submitPairwiseComparison
  | K_export string string
  | K_handleFileUpload

text \<open>
  How an HTTP call settles: the promise rejects, or resolves with \<open>response.data\<close>. Each
  endpoint answers with its own kind of payload (section 6 of the specification): a list
  of samples, a summary, an object with a message, a created record, a file. Where a
  handler reads the payload, a payload of another kind is outside the model and leaves
  the state as it is; where it does not, every payload is a success.
\<close>

datatype response =
  Rejected
  | Samples "text_sample list"
  | Summary summary
  | Message string
  | Created
  | Blob string

record world =
  ui :: dashboard
  pending :: "continuation list"
  effects :: "effect list"

subsection \<open>JavaScript values\<close>

text \<open>\<open>xs[i]\<close> is \<open>undefined\<close> outside \<open>0 .. xs.length - 1\<close>.\<close>

definition js_index :: "'a list \<Rightarrow> int \<Rightarrow> 'a option" where
  "js_index xs i = (if 0 \<le> i \<and> i < int (length xs) then Some (xs ! nat i) else None)"

text \<open>
  A JavaScript number: division never throws, a zero divisor gives \<open>NaN\<close> or an infinity.
  Finite values are kept exact (the rounding of doubles is not modelled).
\<close>

datatype js_number = Finite rat | PosInfinity | NegInfinity | NaN

definition js_div :: "rat \<Rightarrow> rat \<Rightarrow> js_number" where
  "js_div a b =
     (if b = 0 then (if a = 0 then NaN else if 0 < a then PosInfinity else NegInfinity)
      else Finite (a / b))"

definition js_times :: "js_number \<Rightarrow> rat \<Rightarrow> js_number" where
  "js_times x c =
     (case x of
        Finite a \<Rightarrow> Finite (a * c)
      | NaN \<Rightarrow> NaN
      | PosInfinity \<Rightarrow> (if c = 0 then NaN else if 0 < c then PosInfinity else NegInfinity)
      | NegInfinity \<Rightarrow> (if c = 0 then NaN else if 0 < c then NegInfinity else PosInfinity))"

subsection \<open>Effects and state updates\<close>

definition emit :: "effect \<Rightarrow> world \<Rightarrow> world" where
  "emit e w = w\<lparr>effects := effects w @ [e]\<rparr>"

definition await :: "continuation \<Rightarrow> world \<Rightarrow> world" where
  "await k w = w\<lparr>pending := pending w @ [k]\<rparr>"

definition setState :: "(dashboard \<Rightarrow> dashboard) \<Rightarrow> world \<Rightarrow> world" where
  "setState f w = w\<lparr>ui := f (ui w)\<rparr>"

subsection \<open>Fetch functions (lines 49-90)\<close>

definition fetchTextSamples :: "world \<Rightarrow> world" where
  "fetchTextSamples w = await K_fetchTextSamples (emit (Get ''/text-samples?limit=200'') w)"

fun fetchTextSamples_resume :: "response \<Rightarrow> world \<Rightarrow> world" where
  "fetchTextSamples_resume (Samples xs) w = setState (\<lambda>s. s\<lparr>textSamples := xs\<rparr>) w"
| "fetchTextSamples_resume Rejected w = emit (ToastError ''Failed to load text samples'') w"
| "fetchTextSamples_resume _ w = w"

definition fetchAnalytics :: "world \<Rightarrow> world" where
  "fetchAnalytics w = await K_fetchAnalytics (emit (Get ''/analytics/summary'') w)"

fun fetchAnalytics_resume :: "response \<Rightarrow> world \<Rightarrow> world" where
  "fetchAnalytics_resume (Summary a) w = setState (\<lambda>s. s\<lparr>analytics := Some a\<rparr>) w"
| "fetchAnalytics_resume _ w = w"

definition fetchPairwiseTexts :: "world \<Rightarrow> world" where
  "fetchPairwiseTexts w =
     await K_fetchPairwiseTexts
       (emit (Get ''/text-samples/random-pair'')
          (setState (\<lambda>s. s\<lparr>pairwiseLoading := True\<rparr>) w))"

fun fetchPairwiseTexts_resume :: "response \<Rightarrow> world \<Rightarrow> world" where
  "fetchPairwiseTexts_resume (Samples xs) w =
     setState (\<lambda>s. s\<lparr>pairwiseLoading := False\<rparr>) (setState (\<lambda>s. s\<lparr>pairwiseTexts := xs\<rparr>) w)"
| "fetchPairwiseTexts_resume Rejected w =
     setState (\<lambda>s. s\<lparr>pairwiseLoading := False\<rparr>)
       (emit (ToastError ''Failed to load text pair for comparison'') w)"
| "fetchPairwiseTexts_resume _ w = setState (\<lambda>s. s\<lparr>pairwiseLoading := False\<rparr>) w"

definition initializeSampleData :: "world \<Rightarrow> world" where
  "initializeSampleData w =
     await K_initializeSampleData (emit (Post ''/initialize-sample-data'' NoBody) w)"

fun initializeSampleData_resume :: "response \<Rightarrow> world \<Rightarrow> world" where
  "initializeSampleData_resume (Message m) w =
     fetchAnalytics (fetchTextSamples (emit (ToastSuccess m) w))"
| "initializeSampleData_resume Rejected w =
     emit (ToastError ''Failed to initialize sample data'') w"
| "initializeSampleData_resume _ w = w"

subsection \<open>Submitting an annotation (lines 93-131)\<close>

text \<open>\<open>notes || null\<close>: the empty string is the only falsy string.\<close>

definition mk_annotationData :: "dashboard \<Rightarrow> text_sample \<Rightarrow> annotationData" where
  "mk_annotationData s currentSample =
     \<lparr>text_sample_id = sample_id currentSample,
      quality_level = selectedQuality s,
      issue_tags = selectedIssues s,
      annotation_notes = (if notesText s = [] then None else Some (notesText s))\<rparr>"

definition submitAnnotation :: "world \<Rightarrow> world" where
  "submitAnnotation w =
     (let s = ui w in
      if selectedQuality s = [] then emit (ToastError ''Please select a quality level'') w
      else
        (case js_index (textSamples s) (currentSampleIndex s) of
           None \<Rightarrow> w
         | Some currentSample \<Rightarrow>
             await (K_submitAnnotation (currentSampleIndex s) (length (textSamples s)))
               (emit (Post ''/annotations'' (AnnotationBody (mk_annotationData s currentSample)))
                  (setState (\<lambda>s. s\<lparr>loading := True\<rparr>) w))))"

fun submitAnnotation_resume :: "int \<Rightarrow> nat \<Rightarrow> response \<Rightarrow> world \<Rightarrow> world" where
  "submitAnnotation_resume i n Rejected w =
     setState (\<lambda>s. s\<lparr>loading := False\<rparr>) (emit (ToastError ''Failed to save annotation'') w)"
| "submitAnnotation_resume i n _ w =
     (let w1 = emit (ToastSuccess ''Annotation saved successfully!'') w;
          w2 = setState (\<lambda>s. s\<lparr>selectedQuality := [], selectedIssues := [], notesText := []\<rparr>) w1;
          w3 = (if i < int n - 1 then setState (\<lambda>s. s\<lparr>currentSampleIndex := i + 1\<rparr>) w2
                else emit (ToastSuccess ''You have completed all available samples!'') w2)
      in setState (\<lambda>s. s\<lparr>loading := False\<rparr>) (fetchAnalytics w3))"

subsection \<open>Submitting a pairwise comparison (lines 134-154)\<close>

text \<open>
  \<open>comparisonData\<close> reads \<open>pairwiseTexts[0]\<close> and \<open>pairwiseTexts[1]\<close>; it is built only
  behind the guard \<open>pairwiseTexts.length !== 2\<close>, so both exist.
\<close>

definition mk_comparisonData :: "dashboard \<Rightarrow> ident \<Rightarrow> comparisonData" where
  "mk_comparisonData s betterTextId =
     \<lparr>text_a_id = sample_id (pairwiseTexts s ! 0),
      text_b_id = sample_id (pairwiseTexts s ! 1),
      better_text_id = betterTextId\<rparr>"

definition submitPairwiseComparison :: "ident \<Rightarrow> world \<Rightarrow> world" where
  "submitPairwiseComparison betterTextId w =
     (if length (pairwiseTexts (ui w)) \<noteq> 2 then w
      else
        await K_submitPairwiseComparison
          (emit (Post ''/pairwise-comparisons''
                   (ComparisonBody (mk_comparisonData (ui w) betterTextId)))
             (setState (\<lambda>s. s\<lparr>loading := True\<rparr>) w)))"

fun submitPairwiseComparison_resume :: "response \<Rightarrow> world \<Rightarrow> world" where
  "submitPairwiseComparison_resume Rejected w =
     setState (\<lambda>s. s\<lparr>loading := False\<rparr>) (emit (ToastError ''Failed to save comparison'') w)"
| "submitPairwiseComparison_resume _ w =
     setState (\<lambda>s. s\<lparr>loading := False\<rparr>)
       (fetchAnalytics (fetchPairwiseTexts (emit (ToastSuccess ''Comparison saved successfully!'') w)))"

subsection \<open>Export and upload (lines 157-220)\<close>

definition exportAnnotations :: "world \<Rightarrow> world" where
  "exportAnnotations w =
     await (K_export ''annotations.csv'' ''annotations'')
       (emit (Get ''/export/annotations-csv'') w)"

definition exportFullDataset :: "world \<Rightarrow> world" where
  "exportFullDataset w =
     await (K_export ''full_dataset.csv'' ''dataset'')
       (emit (Get ''/export/full-dataset-csv'') w)"

fun export_resume :: "string \<Rightarrow> string \<Rightarrow> response \<Rightarrow> world \<Rightarrow> world" where
  "export_resume file what Rejected w = emit (ToastError (''Failed to export '' @ what)) w"
| "export_resume file what _ w =
     emit (ToastSuccess ((if what = ''dataset'' then ''Full dataset'' else ''Annotations'')
             @ '' exported successfully!''))
       (emit (Download file) w)"

text \<open>\<open>file\<close> is \<open>event.target.files[0]\<close>: \<open>None\<close> when the file dialog was cancelled.\<close>

definition handleFileUpload :: "string option \<Rightarrow> string \<Rightarrow> world \<Rightarrow> world" where
  "handleFileUpload file fileType w =
     (case file of
        None \<Rightarrow> w
      | Some f \<Rightarrow>
          (let endpoint = (if fileType = ''csv'' then ''upload-csv'' else ''upload-json'')
           in await K_handleFileUpload (emit (Post (''/text-samples/'' @ endpoint) (FormData f)) w)))"

fun handleFileUpload_resume :: "response \<Rightarrow> world \<Rightarrow> world" where
  "handleFileUpload_resume Rejected w = emit (ToastError ''Failed to upload file'') w"
| "handleFileUpload_resume (Message m) w =
     fetchAnalytics (fetchTextSamples (emit (ToastSuccess m) w))"
| "handleFileUpload_resume _ w = w"

subsection \<open>The issue checkboxes and the progress bar (lines 223-237)\<close>

definition handleIssueToggle :: "string \<Rightarrow> bool \<Rightarrow> dashboard \<Rightarrow> dashboard" where
  "handleIssueToggle issueValue checked s =
     (if checked then s\<lparr>selectedIssues := selectedIssues s @ [issueValue]\<rparr>
      else s\<lparr>selectedIssues := filter (\<lambda>issue. issue \<noteq> issueValue) (selectedIssues s)\<rparr>)"

definition currentSample :: "dashboard \<Rightarrow> text_sample option" where
  "currentSample s = js_index (textSamples s) (currentSampleIndex s)"

definition progress :: "dashboard \<Rightarrow> js_number" where
  "progress s =
     (if 0 < length (textSamples s)
      then js_times (js_div (of_int (currentSampleIndex s + 1)) (of_nat (length (textSamples s)))) 100
      else Finite 0)"

subsection \<open>The rendered controls and the event loop\<close>

text \<open>
  The initial values of the \<open>useState\<close> calls, and the \<open>useEffect\<close> of the first render
  (lines 231-234).
\<close>

definition initial :: dashboard where
  "initial =
     \<lparr>textSamples = [], currentSampleIndex = 0, analytics = None, loading = False,
      selectedQuality = [], selectedIssues = [], notesText = [], pairwiseTexts = [],
      pairwiseLoading = False\<rparr>"

definition mount :: world where
  "mount = fetchAnalytics (fetchTextSamples \<lparr>ui = initial, pending = [], effects = []\<rparr>)"

text \<open>The \<open>onClick\<close> of \<open>prev-sample-btn\<close> and \<open>next-sample-btn\<close> (lines 381, 390).\<close>

definition prev_sample_onClick :: "dashboard \<Rightarrow> dashboard" where
  "prev_sample_onClick s = s\<lparr>currentSampleIndex := max 0 (currentSampleIndex s - 1)\<rparr>"

definition next_sample_onClick :: "dashboard \<Rightarrow> dashboard" where
  "next_sample_onClick s =
     s\<lparr>currentSampleIndex := min (int (length (textSamples s)) - 1) (currentSampleIndex s + 1)\<rparr>"

text \<open>
  What the user and the network can do. A control rendered from a list (\<open>.map\<close>) is named
  by its position; a checkbox reports its new state; \<open>Settle k r\<close> settles the \<open>k\<close>-th
  pending HTTP call with \<open>r\<close>, so calls settle in any order and between any two clicks.
  The four tabs only show and hide controls: every control is taken to be within reach.
\<close>

datatype file_input = Upload_csv_input | Upload_json_input

datatype event =
  ClickQuality nat
  | CheckIssue nat bool
  | TypeNotes string
  | ClickSubmitAnnotation
  | ClickPrev
  | ClickNext
  | ClickInitialize
  | ClickSelectText nat
  | ClickLoadPair
  | ClickExportAnnotations
  | ClickExportFullDataset
  | ChooseFile file_input "string option"
  | Settle nat response

fun resume :: "continuation \<Rightarrow> response \<Rightarrow> world \<Rightarrow> world" where
  "resume K_fetchTextSamples r w = fetchTextSamples_resume r w"
| "resume K_fetchAnalytics r w = fetchAnalytics_resume r w"
| "resume K_fetchPairwiseTexts r w = fetchPairwiseTexts_resume r w"
| "resume K_initializeSampleData r w = initializeSampleData_resume r w"
| "resume (K_submitAnnotation i n) r w = submitAnnotation_resume i n r w"
| "resume K_submitPairwiseComparison r w = submitPairwiseComparison_resume r w"
| "resume (K_export file what) r w = export_resume file what r w"
| "resume K_handleFileUpload r w = handleFileUpload_resume r w"

text \<open>
  One event. A disabled button does not call its handler (lines 366, 382, 391, 431, 447);
  the select buttons and the initialise button exist only while their condition holds
  (lines 276, 414).
\<close>

fun step :: "world \<Rightarrow> event \<Rightarrow> world" where
  "step w (ClickQuality i) =
     (if i < length qualityOptions
      then setState (\<lambda>s. s\<lparr>selectedQuality := opt_value (qualityOptions ! i)\<rparr>) w else w)"
| "step w (CheckIssue i checked) =
     (if i < length issueOptions
      then setState (handleIssueToggle (opt_value (issueOptions ! i)) checked) w else w)"
| "step w (TypeNotes v) = setState (\<lambda>s. s\<lparr>notesText := v\<rparr>) w"
| "step w ClickSubmitAnnotation =
     (if loading (ui w) \<or> selectedQuality (ui w) = [] then w else submitAnnotation w)"
| "step w ClickPrev =
     (if currentSampleIndex (ui w) = 0 then w else setState prev_sample_onClick w)"
| "step w ClickNext =
     (if currentSampleIndex (ui w) \<ge> int (length (textSamples (ui w))) - 1 then w
      else setState next_sample_onClick w)"
| "step w ClickInitialize =
     (if length (textSamples (ui w)) = 0 then initializeSampleData w else w)"
| "step w (ClickSelectText i) =
     (if length (pairwiseTexts (ui w)) = 2 \<and> i < 2 \<and> \<not> loading (ui w)
      then submitPairwiseComparison (sample_id (pairwiseTexts (ui w) ! i)) w else w)"
| "step w ClickLoadPair = (if pairwiseLoading (ui w) then w else fetchPairwiseTexts w)"
| "step w ClickExportAnnotations = exportAnnotations w"
| "step w ClickExportFullDataset = exportFullDataset w"
| "step w (ChooseFile Upload_csv_input file) = handleFileUpload file ''csv'' w"
| "step w (ChooseFile Upload_json_input file) = handleFileUpload file ''json'' w"
| "step w (Settle k r) =
     (if k < length (pending w)
      then resume (pending w ! k) r (w\<lparr>pending := take k (pending w) @ drop (Suc k) (pending w)\<rparr>)
      else w)"

definition run :: "world \<Rightarrow> event list \<Rightarrow> world" where
  "run w evs = foldl step w evs"

text \<open>What a handler added to the log.\<close>

definition emitted :: "world \<Rightarrow> world \<Rightarrow> effect list" where
  "emitted w w' = drop (length (effects w)) (effects w')"

subsection \<open>Predicates on states and events\<close>

text \<open>\<open>currentSampleIndex\<close> names a sample: it lies in \<open>0 .. textSamples.length - 1\<close>.\<close>

definition index_in_range :: "world \<Rightarrow> bool" where
  "index_in_range w =
     (0 \<le> currentSampleIndex (ui w)
      \<and> currentSampleIndex (ui w) \<le> int (length (textSamples (ui w))) - 1)"

text \<open>
  A pending call that cannot replace the list \<open>T\<close> of loaded samples: it is not a reload
  (\<open>fetchTextSamples\<close>, directly or after an upload or an initialisation), and if it is
  an annotation being saved, the index and length it carries were read from \<open>T\<close>.
\<close>

fun keeps_samples :: "text_sample list \<Rightarrow> continuation \<Rightarrow> bool" where
  "keeps_samples T K_fetchTextSamples = False"
| "keeps_samples T K_initializeSampleData = False"
| "keeps_samples T K_handleFileUpload = False"
| "keeps_samples T (K_submitAnnotation i n) = (n = length T \<and> 0 \<le> i \<and> i < int n)"
| "keeps_samples T _ = True"

fun is_upload :: "event \<Rightarrow> bool" where
  "is_upload (ChooseFile x f) = True"
| "is_upload _ = False"

text \<open>The invariants of the event loop used below.\<close>

definition nav_inv :: "text_sample list \<Rightarrow> world \<Rightarrow> bool" where
  "nav_inv T w =
     (textSamples (ui w) = T \<and> index_in_range w \<and> (\<forall>k\<in>set (pending w). keeps_samples T k))"

definition quality_ok :: "world \<Rightarrow> bool" where
  "quality_ok w =
     (selectedQuality (ui w) = [] \<or> selectedQuality (ui w) \<in> set (map opt_value qualityOptions))"

definition issues_ok :: "world \<Rightarrow> bool" where
  "issues_ok w = (set (selectedIssues (ui w)) \<subseteq> set (map opt_value issueOptions))"

text \<open>
  The checkbox component (\<open>components/ui/checkbox\<close>, not among the sources) is given
  \<open>checked = selectedIssues.includes(issue.value)\<close> (line 344). An event is \<open>controlled\<close>
  when the checkbox reports the opposite of what it showed.
\<close>

fun controlled :: "world \<Rightarrow> event \<Rightarrow> bool" where
  "controlled w (CheckIssue i checked) =
     (i < length issueOptions \<longrightarrow>
        checked = (opt_value (issueOptions ! i) \<notin> set (selectedIssues (ui w))))"
| "controlled w _ = True"

fun controlled_run :: "world \<Rightarrow> event list \<Rightarrow> bool" where
  "controlled_run w [] = True"
| "controlled_run w (e # es) = (controlled w e \<and> controlled_run (step w e) es)"

subsection \<open>Example data\<close>

definition sample_a :: text_sample where
  "sample_a = \<lparr>sample_id = ''a'', sample_text = ''The sky is blue.'', source = Some ''Demo'',
               topic = None, created_at = 0\<rparr>"

definition sample_b :: text_sample where
  "sample_b = \<lparr>sample_id = ''b'', sample_text = ''Water is wet.'', source = None,
               topic = Some ''Tech'', created_at = 1\<rparr>"

text \<open>
  States of the dashboard (two samples loaded; a quality chosen and notes typed; a pair
  loaded) and a sequence of events in which two saves settle after the user has moved on.
\<close>

definition loaded :: world where
  "loaded = run mount [Settle 0 (Samples [sample_a, sample_b])]"

definition typed_ok :: world where
  "typed_ok = run loaded [ClickQuality 1, TypeNotes ''ok'']"

definition clicks :: "event list" where
  "clicks = [ClickPrev, ClickQuality 0, ClickSubmitAnnotation, ClickNext, ClickNext,
             Settle 1 Created, ClickNext, ClickQuality 2, ClickSubmitAnnotation,
             ClickPrev, Settle 2 Created, ClickNext, ClickInitialize]"

definition pair_loaded :: world where
  "pair_loaded = run mount [ClickLoadPair, Settle 2 (Samples [sample_a, sample_b])]"

section \<open>The service behind the HTTP interface\<close>

text \<open>
  The dashboard talks to a service (\<open>backend/server.py\<close> in the project structure of the
  README) whose code is not among the sources. Every definition of this section is
  modelled from the specification (sections 3, 4, 6 and 7). Two inputs the specification
  leaves to libraries are parameters: the CSV reader (its result is the argument of
  \<open>ingest_csv\<close>) and the random generator (its two draws are arguments of
  \<open>pick_random_pair\<close>). The clock is the argument \<open>now\<close>.
\<close>

subsection \<open>Record Store\<close>

text \<open>
  Modelled from the spec: the error taxonomy of section 7 and the entities of section 3.
  An annotation and a comparison are the request body with the identifier and the
  creation time the store assigns; the store holds the three collections and numbers its
  inserts.
\<close>

datatype error = ValidationError string | NotFoundError string | StoreError string

record annotation = annotationData +
  annotation_id :: ident
  annotation_created_at :: nat

record pairwise_comparison = comparisonData +
  comparison_id :: ident
  comparison_created_at :: nat

record record_store =
  samples :: "text_sample list"
  annotations :: "annotation list"
  comparisons :: "pairwise_comparison list"
  next_id :: nat

definition empty_store :: record_store where
  "empty_store = \<lparr>samples = [], annotations = [], comparisons = [], next_id = 0\<rparr>"

text \<open>
  Modelled from the spec: the identifier generator of the Record Store (section 4.1,
  "every insert assigns a server-generated unique identifier and a creation timestamp").
  The specification fixes only that identifiers are unique; here the identifier of an
  insert is its number, written in decimal.
\<close>

definition digit_char :: "nat \<Rightarrow> char" where
  "digit_char d = char_of (48 + d)"

fun decimal :: "nat \<Rightarrow> string" where
  "decimal n = (if n < 10 then [digit_char n] else decimal (n div 10) @ [digit_char (n mod 10)])"

declare decimal.simps [simp del]

definition fresh_id :: "record_store \<Rightarrow> ident" where
  "fresh_id st = decimal (next_id st)"

text \<open>Modelled from the spec: \<open>insert(entity) -> id\<close> of section 4.1, one for each entity kind.\<close>

definition insert_sample ::
  "record_store \<Rightarrow> nat \<Rightarrow> string \<Rightarrow> string option \<Rightarrow> string option \<Rightarrow> text_sample \<times> record_store"
where
  "insert_sample st now txt src tpc =
     (let x = \<lparr>sample_id = fresh_id st, sample_text = txt, source = src, topic = tpc,
               created_at = now\<rparr>
      in (x, st\<lparr>samples := samples st @ [x], next_id := Suc (next_id st)\<rparr>))"

definition insert_annotation ::
  "record_store \<Rightarrow> nat \<Rightarrow> annotationData \<Rightarrow> annotation \<times> record_store" where
  "insert_annotation st now d =
     (let a = \<lparr>text_sample_id = text_sample_id d, quality_level = quality_level d,
               issue_tags = issue_tags d, annotation_notes = annotation_notes d,
               annotation_id = fresh_id st, annotation_created_at = now\<rparr>
      in (a, st\<lparr>annotations := annotations st @ [a], next_id := Suc (next_id st)\<rparr>))"

definition insert_comparison ::
  "record_store \<Rightarrow> nat \<Rightarrow> comparisonData \<Rightarrow> pairwise_comparison \<times> record_store" where
  "insert_comparison st now d =
     (let c = \<lparr>text_a_id = text_a_id d, text_b_id = text_b_id d,
               better_text_id = better_text_id d,
               comparison_id = fresh_id st, comparison_created_at = now\<rparr>
      in (c, st\<lparr>comparisons := comparisons st @ [c], next_id := Suc (next_id st)\<rparr>))"

subsection \<open>Ingestion Service\<close>

text \<open>
  Modelled from the spec: the input and the result of \<open>ingest_csv\<close> (section 4.2). A CSV
  file is what its reader returns: the header row and the data rows. The result is
  \<open>inserted_count\<close> and, in place of the \<open>message\<close> whose wording the specification does
  not give, the number of rows "skipped and counted". Trimming removes white space at
  both ends; a cell is found by the name of its column.
\<close>

record csv_table =
  csv_header :: "string list"
  csv_rows :: "string list list"

record upload_result =
  inserted_count :: nat
  skipped_count :: nat

definition is_space :: "char \<Rightarrow> bool" where
  "is_space c = (c \<in> set [CHR '' '', CHR 0x09, CHR 0x0A, CHR 0x0B, CHR 0x0C, CHR 0x0D])"

definition trim :: "string \<Rightarrow> string" where
  "trim s = rev (dropWhile is_space (rev (dropWhile is_space s)))"

fun column_index :: "string list \<Rightarrow> string \<Rightarrow> nat option" where
  "column_index [] c = None"
| "column_index (h # hs) c = (if h = c then Some 0 else map_option Suc (column_index hs c))"

definition cell :: "string list \<Rightarrow> string list \<Rightarrow> string \<Rightarrow> string option" where
  "cell hdr row c =
     (case column_index hdr c of
        None \<Rightarrow> None
      | Some i \<Rightarrow> (if i < length row then Some (row ! i) else None))"

text \<open>
  Modelled from the spec: the row-level validation of \<open>ingest_csv\<close> (section 4.2): the
  column \<open>text\<close> is required and must not be empty after trimming; \<open>source\<close> and \<open>topic\<close>
  are optional. A row fails with a ValidationError of its own; section 4.2 and the upload
  of section 8 ("second row skipped, empty text") make that failure skip the row, not
  the file.
\<close>

definition validate_row ::
  "string list \<Rightarrow> string list \<Rightarrow> error + (string \<times> string option \<times> string option)" where
  "validate_row hdr row =
     (case cell hdr row ''text'' of
        None \<Rightarrow> Inl (ValidationError ''text is required'')
      | Some t \<Rightarrow>
          (if trim t = [] then Inl (ValidationError ''text is empty'')
           else Inr (t, cell hdr row ''source'', cell hdr row ''topic'')))"

text \<open>
  Modelled from the spec: the loop of \<open>ingest_csv\<close> over the data rows (section 4.2, "Each
  valid row becomes one TextSample insert. Rows that fail row-level validation are
  skipped and counted, not fatal to the whole batch").
\<close>

fun ingest_rows ::
  "string list \<Rightarrow> nat \<Rightarrow> string list list \<Rightarrow> record_store \<times> upload_result
     \<Rightarrow> record_store \<times> upload_result" where
  "ingest_rows hdr now [] acc = acc"
| "ingest_rows hdr now (row # rows) (st, res) =
     (case validate_row hdr row of
        Inl e \<Rightarrow> ingest_rows hdr now rows (st, res\<lparr>skipped_count := Suc (skipped_count res)\<rparr>)
      | Inr (t, src, tpc) \<Rightarrow>
          ingest_rows hdr now rows
            (snd (insert_sample st now t src tpc),
             res\<lparr>inserted_count := Suc (inserted_count res)\<rparr>))"

text \<open>
  Modelled from the spec: \<open>ingest_csv\<close> (section 4.2). The argument is what the CSV reader
  made of the uploaded bytes: \<open>None\<close> when the file "is not parseable as CSV at all (e.g.,
  encoding error, missing header row)", the only case in which the upload fails.
\<close>

definition ingest_csv ::
  "record_store \<Rightarrow> nat \<Rightarrow> csv_table option \<Rightarrow> error + (upload_result \<times> record_store)" where
  "ingest_csv st now parsed =
     (case parsed of
        None \<Rightarrow> Inl (ValidationError ''not a CSV file'')
      | Some tbl \<Rightarrow>
          (case ingest_rows (csv_header tbl) now (csv_rows tbl)
                  (st, \<lparr>inserted_count = 0, skipped_count = 0\<rparr>) of
             (st', res) \<Rightarrow> Inr (res, st')))"

text \<open>
  Modelled from the spec: "rows with non-empty \<open>text\<close> after trimming" (section 8), said
  on its own, apart from the validation above.
\<close>

definition nonempty_text :: "string list \<Rightarrow> string list \<Rightarrow> bool" where
  "nonempty_text hdr row = (case cell hdr row ''text'' of None \<Rightarrow> False | Some t \<Rightarrow> trim t \<noteq> [])"

subsection \<open>Annotation Service\<close>

text \<open>Modelled from the spec: the quality-level enum (section 3: good | average | poor).\<close>

definition quality_levels :: "string list" where
  "quality_levels = [''good'', ''average'', ''poor'']"

text \<open>
  Modelled from the spec: \<open>create_annotation\<close> (section 4.3). It "fails with
  ValidationError if \<open>quality_level\<close> not in the three-value enum" and, by the design
  choice stated there, does not require the sample to exist.
\<close>

definition create_annotation ::
  "record_store \<Rightarrow> nat \<Rightarrow> annotationData \<Rightarrow> error + (annotation \<times> record_store)" where
  "create_annotation st now d =
     (if quality_level d \<notin> set quality_levels then Inl (ValidationError ''quality_level'')
      else Inr (insert_annotation st now d))"

text \<open>
  Modelled from the spec: \<open>create_comparison\<close> (section 4.3). It "fails with
  ValidationError if \<open>better_text_id\<close> is not one of the two ids, or if
  \<open>text_a_id == text_b_id\<close>".
\<close>

definition create_comparison ::
  "record_store \<Rightarrow> nat \<Rightarrow> comparisonData \<Rightarrow> error + (pairwise_comparison \<times> record_store)" where
  "create_comparison st now d =
     (if better_text_id d \<noteq> text_a_id d \<and> better_text_id d \<noteq> text_b_id d
      then Inl (ValidationError ''better_text_id'')
      else if text_a_id d = text_b_id d then Inl (ValidationError ''text_a_id'')
      else Inr (insert_comparison st now d))"

text \<open>
  Modelled from the spec: \<open>pick_random_pair\<close> (section 4.3): "returns empty if fewer than
  2 samples exist; otherwise draws two distinct samples uniformly at random without
  replacement". \<open>r1\<close> and \<open>r2\<close> are the two draws of the random generator: the first
  sample is taken out of the list before the second is drawn. (That each pair is equally
  likely is not expressed here.)
\<close>

definition pick_random_pair :: "record_store \<Rightarrow> nat \<Rightarrow> nat \<Rightarrow> error + text_sample list" where
  "pick_random_pair st r1 r2 =
     (let xs = samples st; n = length xs in
      if n < 2 then Inr []
      else
        (let i = r1 mod n;
             others = take i xs @ drop (Suc i) xs;
             j = r2 mod (n - 1)
         in Inr [xs ! i, others ! j]))"

subsection \<open>Analytics Aggregator\<close>

text \<open>
  Modelled from the spec: \<open>summarize\<close> (section 4.4). \<open>quality_distribution\<close> is the
  "mapping from each of the three quality-level enum values to the count of annotations
  with that level; levels with zero annotations are still present with value 0".
  \<open>annotation_progress\<close> is left out: section 9 leaves its definition open, and the
  dashboard only prints it.
\<close>

definition count_level :: "annotation list \<Rightarrow> string \<Rightarrow> nat" where
  "count_level as q = length (filter (\<lambda>a. quality_level a = q) as)"

definition summarize :: "record_store \<Rightarrow> summary" where
  "summarize st =
     \<lparr>total_samples = length (samples st),
      total_annotations = length (annotations st),
      total_comparisons = length (comparisons st),
      quality_distribution = map (\<lambda>q. (q, count_level (annotations st) q)) quality_levels\<rparr>"

subsection \<open>The service as a sequence of requests\<close>

text \<open>
  Modelled from the spec: the requests of section 6 that write to the store, each with
  the time it arrives. A request that fails leaves the store as it was (section 7: every
  operation but bulk ingestion is all-or-nothing, and bulk ingestion fails only as a
  whole file). The JSON upload, the manual creation of a sample and the seeding of demo
  samples are left out.
\<close>

datatype api_call =
  Upload_csv "csv_table option"
  | Post_annotation annotationData
  | Post_comparison comparisonData

fun serve1 :: "record_store \<Rightarrow> nat \<times> api_call \<Rightarrow> record_store" where
  "serve1 st (now, Upload_csv parsed) =
     (case ingest_csv st now parsed of Inl e \<Rightarrow> st | Inr (res, st') \<Rightarrow> st')"
| "serve1 st (now, Post_annotation d) =
     (case create_annotation st now d of Inl e \<Rightarrow> st | Inr (a, st') \<Rightarrow> st')"
| "serve1 st (now, Post_comparison d) =
     (case create_comparison st now d of Inl e \<Rightarrow> st | Inr (c, st') \<Rightarrow> st')"

definition serve :: "(nat \<times> api_call) list \<Rightarrow> record_store" where
  "serve calls = foldl serve1 empty_store calls"

subsection \<open>Example requests\<close>

text \<open>
  \<open>hello_csv\<close> is the upload of section 8 of the specification: two data rows, the
  second with an empty \<open>text\<close>.
\<close>

definition hello_csv :: csv_table where
  "hello_csv =
     \<lparr>csv_header = [''text'', ''source'', ''topic''],
      csv_rows = [[''Hello world'', ''Demo'', ''Tech''], ['''', ''Demo'', ''Tech'']]\<rparr>"

definition three_rows_csv :: csv_table where
  "three_rows_csv =
     \<lparr>csv_header = [''topic'', ''text''],
      csv_rows = [[''Tech'', ''One''], [''Health'', ''  ''], [''Health'', '' Two ''], [''Tech''],
                  ['''', ''Three'']]\<rparr>"

definition four_posts :: "(nat \<times> api_call) list" where
  "four_posts =
     [(0, Post_annotation \<lparr>text_sample_id = ''x'', quality_level = ''good'', issue_tags = [],
                           annotation_notes = None\<rparr>),
      (1, Post_annotation \<lparr>text_sample_id = ''x'', quality_level = ''great'', issue_tags = [],
                           annotation_notes = None\<rparr>),
      (2, Post_annotation \<lparr>text_sample_id = ''y'', quality_level = ''poor'',
                           issue_tags = [''grammar_error''], annotation_notes = Some ''typo''\<rparr>),
      (3, Post_annotation \<lparr>text_sample_id = ''y'', quality_level = ''good'', issue_tags = [],
                           annotation_notes = None\<rparr>)]"

subsection \<open>What every store built by requests satisfies\<close>

text \<open>
  The identifiers of the samples are numbers the store has already used, and no two
  agree; every sample has a text; every annotation has one of the three levels; every
  comparison prefers one of its own two texts, which differ.
\<close>

definition store_inv :: "record_store \<Rightarrow> bool" where
  "store_inv st =
     ((\<forall>x\<in>set (samples st). \<exists>n<next_id st. sample_id x = decimal n)
      \<and> distinct (map sample_id (samples st))
      \<and> (\<forall>x\<in>set (samples st). trim (sample_text x) \<noteq> [])
      \<and> (\<forall>a\<in>set (annotations st). quality_level a \<in> set quality_levels)
      \<and> (\<forall>c\<in>set (comparisons st).
            better_text_id c \<in> {text_a_id c, text_b_id c} \<and> text_a_id c \<noteq> text_b_id c))"

section \<open>Lemmas\<close>

lemma emit_simps [simp]:
  "ui (emit e w) = ui w" "pending (emit e w) = pending w" "effects (emit e w) = effects w @ [e]"
  by (simp_all add: emit_def)

lemma await_simps [simp]:
  "ui (await k w) = ui w" "pending (await k w) = pending w @ [k]" "effects (await k w) = effects w"
  by (simp_all add: await_def)

lemma setState_simps [simp]:
  "ui (setState f w) = f (ui w)" "pending (setState f w) = pending w"
  "effects (setState f w) = effects w"
  by (simp_all add: setState_def)

lemmas fetch_defs = fetchTextSamples_def fetchAnalytics_def fetchPairwiseTexts_def

lemma emitted_emit: "emitted w (emit e w) = [e]"
  by (simp add: emitted_def)

lemma resume_appends: "effects (resume k r w) = effects w @ emitted w (resume k r w)"
  by (cases k; cases r) (auto simp: emitted_def fetch_defs Let_def)

lemma resume_emits_no_post: "Post p b \<notin> set (emitted w (resume k r w))"
  by (cases k; cases r) (auto simp: emitted_def fetch_defs Let_def)

lemma step_appends: "effects (step w e) = effects w @ emitted w (step w e)"
proof (cases e)
  case (Settle k r)
  then show ?thesis
    using resume_appends [of "pending w ! k" r "w\<lparr>pending := take k (pending w) @ drop (Suc k) (pending w)\<rparr>"]
    by (auto simp: emitted_def)
next
  case (ChooseFile x f)
  then show ?thesis
    by (cases x) (auto simp: emitted_def handleFileUpload_def Let_def split: option.splits)
qed (auto simp: emitted_def submitAnnotation_def Let_def initializeSampleData_def
       submitPairwiseComparison_def fetch_defs exportAnnotations_def exportFullDataset_def
       split: option.splits)

lemma step_emits_annotation:
  assumes "Post p (AnnotationBody d) \<in> set (emitted w (step w e))"
  shows "e = ClickSubmitAnnotation \<and> p = ''/annotations'' \<and> \<not> loading (ui w)
         \<and> selectedQuality (ui w) \<noteq> []
         \<and> (\<exists>cs. currentSample (ui w) = Some cs \<and> d = mk_annotationData (ui w) cs)"
proof (cases e)
  case (Settle k r)
  with assms show ?thesis
    using resume_emits_no_post [of p "AnnotationBody d" "w\<lparr>pending := take k (pending w) @ drop (Suc k) (pending w)\<rparr>" "pending w ! k" r]
    by (auto simp: emitted_def split: if_splits)
next
  case ClickSubmitAnnotation
  with assms show ?thesis
    by (auto simp: emitted_def submitAnnotation_def currentSample_def Let_def
             split: if_splits option.splits)
next
  case (ChooseFile x f)
  with assms show ?thesis
    by (cases x) (auto simp: emitted_def handleFileUpload_def Let_def split: option.splits)
qed (use assms in \<open>auto simp: emitted_def initializeSampleData_def submitPairwiseComparison_def
       fetch_defs exportAnnotations_def exportFullDataset_def split: if_splits\<close>)

lemma step_emits_comparison:
  assumes "Post p (ComparisonBody d) \<in> set (emitted w (step w e))"
  shows "\<exists>i<2. e = ClickSelectText i \<and> p = ''/pairwise-comparisons'' \<and> \<not> loading (ui w)
          \<and> length (pairwiseTexts (ui w)) = 2
          \<and> d = mk_comparisonData (ui w) (sample_id (pairwiseTexts (ui w) ! i))"
proof (cases e)
  case (Settle k r)
  with assms show ?thesis
    using resume_emits_no_post [of p "ComparisonBody d" "w\<lparr>pending := take k (pending w) @ drop (Suc k) (pending w)\<rparr>" "pending w ! k" r]
    by (auto simp: emitted_def split: if_splits)
next
  case ClickSubmitAnnotation
  with assms show ?thesis
    by (auto simp: emitted_def submitAnnotation_def currentSample_def Let_def
             split: if_splits option.splits)
next
  case (ChooseFile x f)
  with assms show ?thesis
    by (cases x) (auto simp: emitted_def handleFileUpload_def Let_def split: option.splits)
qed (use assms in \<open>auto simp: emitted_def initializeSampleData_def submitPairwiseComparison_def
       fetch_defs exportAnnotations_def exportFullDataset_def split: if_splits\<close>)

lemma step_annotation_post:
  assumes "Post p (AnnotationBody d) \<in> set (effects (step w e))"
  shows "Post p (AnnotationBody d) \<in> set (effects w)
       \<or> (e = ClickSubmitAnnotation \<and> p = ''/annotations'' \<and> selectedQuality (ui w) \<noteq> []
          \<and> (\<exists>cs. currentSample (ui w) = Some cs \<and> d = mk_annotationData (ui w) cs))"
proof -
  from assms have "Post p (AnnotationBody d) \<in> set (effects w) \<or> Post p (AnnotationBody d) \<in> set (emitted w (step w e))"
    by (subst (asm) step_appends) auto
  then show ?thesis using step_emits_annotation [of p d w e] by blast
qed

lemma comparison_members:
  "length (pairwiseTexts s) = 2 \<Longrightarrow> i < 2 \<Longrightarrow> d = mk_comparisonData s (sample_id (pairwiseTexts s ! i)) \<Longrightarrow>
   text_a_id d = sample_id (pairwiseTexts s ! 0) \<and> text_b_id d = sample_id (pairwiseTexts s ! 1)
   \<and> better_text_id d \<in> {text_a_id d, text_b_id d}"
  by (auto simp: mk_comparisonData_def less_Suc_eq numeral_2_eq_2)

lemma resume_selectedQuality:
  "selectedQuality (ui (resume k r w)) = selectedQuality (ui w) \<or> selectedQuality (ui (resume k r w)) = []"
  by (cases k; cases r) (auto simp: fetch_defs Let_def)

lemma run_Nil [simp]: "run w [] = w"
  by (simp add: run_def)

lemma run_Cons [simp]: "run w (e # es) = run (step w e) es"
  by (simp add: run_def)

lemma resume_selectedIssues:
  "selectedIssues (ui (resume k r w)) = selectedIssues (ui w) \<or> selectedIssues (ui (resume k r w)) = []"
  by (cases k; cases r) (auto simp: fetch_defs Let_def)

lemma step_selectedQuality:
  "selectedQuality (ui (step w e)) = selectedQuality (ui w)
   \<or> selectedQuality (ui (step w e)) = []
   \<or> selectedQuality (ui (step w e)) \<in> set (map opt_value qualityOptions)"
proof (cases e)
  case (Settle k r)
  then show ?thesis
    using resume_selectedQuality [of "pending w ! k" r "w\<lparr>pending := take k (pending w) @ drop (Suc k) (pending w)\<rparr>"]
    by auto
next
  case (ChooseFile x f)
  then show ?thesis
    by (cases x) (auto simp: handleFileUpload_def Let_def split: option.splits)
qed (auto simp: submitAnnotation_def Let_def initializeSampleData_def submitPairwiseComparison_def
       fetch_defs exportAnnotations_def exportFullDataset_def prev_sample_onClick_def
       next_sample_onClick_def handleIssueToggle_def split: option.splits)

lemma step_selectedIssues:
  "set (selectedIssues (ui (step w e))) \<subseteq> set (selectedIssues (ui w)) \<union> set (map opt_value issueOptions)"
proof (cases e)
  case (Settle k r)
  then show ?thesis
    using resume_selectedIssues [of "pending w ! k" r "w\<lparr>pending := take k (pending w) @ drop (Suc k) (pending w)\<rparr>"]
    by auto
next
  case (ChooseFile x f)
  then show ?thesis
    by (cases x) (auto simp: handleFileUpload_def Let_def split: option.splits)
qed (auto simp: submitAnnotation_def Let_def initializeSampleData_def submitPairwiseComparison_def
       fetch_defs exportAnnotations_def exportFullDataset_def prev_sample_onClick_def
       next_sample_onClick_def handleIssueToggle_def split: option.splits)

lemma step_selectedIssues_distinct:
  assumes "distinct (selectedIssues (ui w))" "controlled w e"
  shows "distinct (selectedIssues (ui (step w e)))"
proof (cases e)
  case (Settle k r)
  then show ?thesis
    using assms resume_selectedIssues [of "pending w ! k" r "w\<lparr>pending := take k (pending w) @ drop (Suc k) (pending w)\<rparr>"]
    by auto
next
  case (ChooseFile x f)
  then show ?thesis
    using assms by (cases x) (auto simp: handleFileUpload_def Let_def split: option.splits)
qed (use assms in \<open>auto simp: submitAnnotation_def Let_def initializeSampleData_def submitPairwiseComparison_def
       fetch_defs exportAnnotations_def exportFullDataset_def prev_sample_onClick_def
       next_sample_onClick_def handleIssueToggle_def split: option.splits\<close>)

lemma run_annotation_posts:
  assumes "Post p (AnnotationBody d) \<in> set (effects (run w evs))"
    and "\<And>w e. P w \<Longrightarrow> P (step w e)"
    and "\<And>p d. Post p (AnnotationBody d) \<in> set (effects w) \<Longrightarrow> Q p d"
    and "\<And>w cs. P w \<Longrightarrow> selectedQuality (ui w) \<noteq> [] \<Longrightarrow> currentSample (ui w) = Some cs
           \<Longrightarrow> Q ''/annotations'' (mk_annotationData (ui w) cs)"
    and "P w"
  shows "Q p d"
  using assms(1,3,5)
proof (induction evs arbitrary: w)
  case Nil
  then show ?case by simp
next
  case (Cons e evs)
  show ?case
  proof (rule Cons.IH [of "step w e"])
    show "Post p (AnnotationBody d) \<in> set (effects (run (step w e) evs))"
      using Cons.prems(1) by simp
    show "P (step w e)" using Cons.prems(3) by (rule assms(2))
    fix p' d'
    assume "Post p' (AnnotationBody d') \<in> set (effects (step w e))"
    from step_annotation_post [OF this] show "Q p' d'"
      using Cons.prems(2,3) assms(4) by blast
  qed
qed

lemma run_comparison_posts:
  assumes "Post p (ComparisonBody d) \<in> set (effects (run w evs))"
  shows "Post p (ComparisonBody d) \<in> set (effects w)
       \<or> (p = ''/pairwise-comparisons'' \<and> better_text_id d \<in> {text_a_id d, text_b_id d})"
  using assms
proof (induction evs arbitrary: w)
  case Nil
  then show ?case by simp
next
  case (Cons e evs)
  from Cons.prems have "Post p (ComparisonBody d) \<in> set (effects (run (step w e) evs))" by simp
  from Cons.IH [OF this] show ?case
  proof
    assume "Post p (ComparisonBody d) \<in> set (effects (step w e))"
    then have "Post p (ComparisonBody d) \<in> set (effects w) \<or> Post p (ComparisonBody d) \<in> set (emitted w (step w e))"
      by (subst (asm) step_appends) auto
    then show ?thesis
      using step_emits_comparison [of p d w e] comparison_members [of "ui w" _ d] by blast
  qed simp
qed

lemma step_quality_ok: "quality_ok w \<Longrightarrow> quality_ok (step w e)"
  using step_selectedQuality [of w e] by (auto simp: quality_ok_def)

lemma mount_effects: "effects mount = [Get ''/text-samples?limit=200'', Get ''/analytics/summary'']"
  by (simp add: mount_def fetch_defs)

lemma mount_ui: "ui mount = initial"
  by (simp add: mount_def fetch_defs)

lemma step_issues_ok: "issues_ok w \<Longrightarrow> issues_ok (step w e)"
  using step_selectedIssues [of w e] by (auto simp: issues_ok_def)

lemma run_issue_tags_distinct:
  assumes "Post p (AnnotationBody d) \<in> set (effects (run w evs))"
    and "controlled_run w evs"
    and "distinct (selectedIssues (ui w))"
    and "\<And>p d. Post p (AnnotationBody d) \<in> set (effects w) \<Longrightarrow> distinct (issue_tags d)"
  shows "distinct (issue_tags d)"
  using assms
proof (induction evs arbitrary: w)
  case Nil
  then show ?case by simp
next
  case (Cons e evs)
  show ?case
  proof (rule Cons.IH [of "step w e"])
    show "Post p (AnnotationBody d) \<in> set (effects (run (step w e) evs))"
      using Cons.prems(1) by simp
    show "controlled_run (step w e) evs" using Cons.prems(2) by simp
    show "distinct (selectedIssues (ui (step w e)))"
      using Cons.prems(2,3) by (simp add: step_selectedIssues_distinct)
    fix p' d'
    assume "Post p' (AnnotationBody d') \<in> set (effects (step w e))"
    from step_annotation_post [OF this] show "distinct (issue_tags d')"
      using Cons.prems(3,4) by (auto simp: mk_annotationData_def)
  qed
qed

lemma resume_pairwiseTexts:
  "pairwiseTexts (ui (resume k r w)) = pairwiseTexts (ui w)
   \<or> r = Samples (pairwiseTexts (ui (resume k r w)))"
  by (cases k; cases r) (auto simp: fetch_defs Let_def)

lemma step_pairwiseTexts:
  "pairwiseTexts (ui (step w e)) = pairwiseTexts (ui w)
   \<or> (\<exists>k. e = Settle k (Samples (pairwiseTexts (ui (step w e)))))"
proof (cases e)
  case (Settle k r)
  then show ?thesis
    using resume_pairwiseTexts [of "pending w ! k" r "w\<lparr>pending := take k (pending w) @ drop (Suc k) (pending w)\<rparr>"]
    by auto
next
  case (ChooseFile x f)
  then show ?thesis
    by (cases x) (auto simp: handleFileUpload_def Let_def split: option.splits)
qed (auto simp: submitAnnotation_def Let_def initializeSampleData_def submitPairwiseComparison_def
       fetch_defs exportAnnotations_def exportFullDataset_def prev_sample_onClick_def
       next_sample_onClick_def handleIssueToggle_def split: option.splits)

lemma run_pairwiseTexts:
  "pairwiseTexts (ui (run w evs)) = pairwiseTexts (ui w)
   \<or> (\<exists>k. Settle k (Samples (pairwiseTexts (ui (run w evs)))) \<in> set evs)"
proof (induction evs arbitrary: w)
  case Nil
  then show ?case by simp
next
  case (Cons e evs)
  let ?now = "pairwiseTexts (ui (run (step w e) evs))"
  from Cons.IH [of "step w e"] show ?case
  proof
    assume same: "?now = pairwiseTexts (ui (step w e))"
    from step_pairwiseTexts [of w e] show ?thesis
    proof
      assume "pairwiseTexts (ui (step w e)) = pairwiseTexts (ui w)"
      with same show ?thesis by simp
    next
      assume "\<exists>k. e = Settle k (Samples (pairwiseTexts (ui (step w e))))"
      then obtain k where "e = Settle k (Samples ?now)" using same by auto
      then have "Settle k (Samples ?now) \<in> set (e # evs)" by simp
      then show ?thesis by (simp only: run_Cons) blast
    qed
  next
    assume "\<exists>k. Settle k (Samples ?now) \<in> set evs"
    then obtain k where "Settle k (Samples ?now) \<in> set (e # evs)" by auto
    then show ?thesis by (simp only: run_Cons) blast
  qed
qed

lemma resume_nav:
  assumes "nav_inv T w" "keeps_samples T k"
  shows "nav_inv T (resume k r w)"
  using assms
  by (cases k; cases r)
     (auto simp: nav_inv_def index_in_range_def fetch_defs Let_def)

lemma remove_nth_subset: "set (take k xs @ drop (Suc k) xs) \<subseteq> set xs"
  by (auto dest: in_set_takeD in_set_dropD)

lemma step_nav:
  assumes "nav_inv T w" "\<not> is_upload e"
  shows "nav_inv T (step w e)"
proof (cases e)
  case (Settle k r)
  show ?thesis
  proof (cases "k < length (pending w)")
    case True
    let ?w = "w\<lparr>pending := take k (pending w) @ drop (Suc k) (pending w)\<rparr>"
    have "nav_inv T ?w"
      using assms(1) remove_nth_subset [of k "pending w"]
      by (auto simp: nav_inv_def index_in_range_def)
    moreover have "keeps_samples T (pending w ! k)"
      using assms(1) True by (simp add: nav_inv_def)
    ultimately show ?thesis
      using Settle True by (simp add: resume_nav)
  next
    case False
    with Settle assms(1) show ?thesis by simp
  qed
next
  case ClickSubmitAnnotation
  with assms(1) show ?thesis
    by (auto simp: nav_inv_def index_in_range_def submitAnnotation_def Let_def js_index_def
             split: option.splits if_splits)
next
  case (ChooseFile x f)
  with assms(2) show ?thesis by simp
qed (use assms(1) in \<open>auto simp: nav_inv_def index_in_range_def initializeSampleData_def
       submitPairwiseComparison_def fetch_defs exportAnnotations_def exportFullDataset_def
       prev_sample_onClick_def next_sample_onClick_def handleIssueToggle_def\<close>)

lemma run_nav:
  assumes "nav_inv T w" "\<forall>e\<in>set evs. \<not> is_upload e"
  shows "nav_inv T (run w evs)"
  using assms by (induction evs arbitrary: w) (auto simp: step_nav)

lemma first_load_nav:
  assumes "T \<noteq> []"
  shows "nav_inv T (step mount (Settle 0 (Samples T)))"
  using assms
  by (simp add: mount_def fetch_defs nav_inv_def index_in_range_def initial_def)

lemma digit_char_inj: "a < 10 \<Longrightarrow> b < 10 \<Longrightarrow> digit_char a = digit_char b \<Longrightarrow> a = b"
proof -
  assume a: "a < 10" and b: "b < 10" and eq: "digit_char a = digit_char b"
  have "of_char (char_of (48 + a) :: char) = (48 + a)" 
    using a by (simp add: of_char_of)
  moreover have "of_char (char_of (48 + b) :: char) = (48 + b)" 
    using b by (simp add: of_char_of)
  ultimately show "a = b" using eq by (simp add: digit_char_def)
qed

lemma decimal_small: "n < 10 \<Longrightarrow> decimal n = [digit_char n]"
  by (subst decimal.simps) simp

lemma decimal_big: "\<not> n < 10 \<Longrightarrow> decimal n = decimal (n div 10) @ [digit_char (n mod 10)]"
  by (subst decimal.simps) simp

lemma decimal_length: "length (decimal n) = Suc 0 \<longleftrightarrow> n < 10"
proof (cases "n < 10")
  case True then show ?thesis by (simp add: decimal_small)
next
  case False
  have "decimal (n div 10) \<noteq> []"
    by (cases "n div 10 < 10") (simp_all add: decimal_small decimal_big)
  then show ?thesis using False by (simp add: decimal_big)
qed

lemma decimal_inj: "decimal a = decimal b \<Longrightarrow> a = b"
proof (induction a arbitrary: b rule: decimal.induct)
  case (1 n)
  show ?case
  proof (cases "n < 10")
    case True
    then have "length (decimal b) = Suc 0" using "1.prems" decimal_length [of n] by simp
    then have b: "b < 10" by (simp add: decimal_length)
    with True "1.prems" show ?thesis by (auto simp: decimal_small dest: digit_char_inj)
  next
    case False
    then have "length (decimal b) \<noteq> Suc 0" using "1.prems" decimal_length [of n] by simp
    then have b: "\<not> b < 10" by (simp add: decimal_length)
    from "1.prems" have e1: "decimal (n div 10) = decimal (b div 10)"
      and e2: "digit_char (n mod 10) = digit_char (b mod 10)"
      by (simp_all add: decimal_big [OF False] decimal_big [OF b])
    from "1.IH" [OF False e1] have "n div 10 = b div 10" .
    moreover from e2 have "n mod 10 = b mod 10" by (rule digit_char_inj [rotated 2]) simp_all
    ultimately show ?thesis by (metis div_mult_mod_eq)
  qed
qed

lemma validate_row_iff:
  "(\<exists>v. validate_row hdr row = Inr v) \<longleftrightarrow> nonempty_text hdr row"
  by (auto simp: validate_row_def nonempty_text_def split: option.splits)

lemma validate_row_text:
  "validate_row hdr row = Inr (t, src, tpc) \<Longrightarrow> trim t \<noteq> []"
  by (auto simp: validate_row_def split: option.splits if_splits)

lemma insert_sample_inv:
  assumes "store_inv st" "trim t \<noteq> []"
  shows "store_inv (snd (insert_sample st now t src tpc))"
proof -
  have "decimal (next_id st) \<notin> sample_id ` set (samples st)"
    using assms(1) by (auto simp: store_inv_def dest!: decimal_inj)
  then show ?thesis
    using assms by (auto simp: store_inv_def insert_sample_def fresh_id_def Let_def less_Suc_eq)
qed

lemma ingest_rows_inv:
  "store_inv st \<Longrightarrow> store_inv (fst (ingest_rows hdr now rows (st, res)))"
proof (induction rows arbitrary: st res)
  case Nil
  then show ?case by simp
next
  case (Cons row rows)
  show ?case
  proof (cases "validate_row hdr row")
    case (Inl e)
    with Cons show ?thesis by simp
  next
    case (Inr v)
    obtain t src tpc where v: "v = (t, src, tpc)" by (cases v)
    have "store_inv (snd (insert_sample st now t src tpc))"
      using Cons.prems Inr v by (auto intro!: insert_sample_inv dest: validate_row_text)
    with Cons.IH Inr v show ?thesis by simp
  qed
qed

lemma ingest_rows_counts:
  assumes "ingest_rows hdr now rows (st, res) = (st', res')"
  shows "inserted_count res' = inserted_count res + length (filter (nonempty_text hdr) rows)
       \<and> skipped_count res' = skipped_count res + length (filter (\<lambda>r. \<not> nonempty_text hdr r) rows)
       \<and> length (samples st') = length (samples st) + length (filter (nonempty_text hdr) rows)
       \<and> annotations st' = annotations st \<and> comparisons st' = comparisons st"
  using assms
proof (induction rows arbitrary: st res)
  case Nil
  then show ?case by simp
next
  case (Cons row rows)
  show ?case
  proof (cases "validate_row hdr row")
    case (Inl e)
    then have "\<not> nonempty_text hdr row"
      using validate_row_iff [of hdr row] by auto
    with Cons Inl show ?thesis by auto
  next
    case (Inr v)
    obtain t src tpc where v: "v = (t, src, tpc)" by (cases v)
    have ne: "nonempty_text hdr row"
      using validate_row_iff [of hdr row] Inr by blast
    from Cons.prems Inr v
    have "ingest_rows hdr now rows (snd (insert_sample st now t src tpc),
             res\<lparr>inserted_count := Suc (inserted_count res)\<rparr>) = (st', res')" by simp
    from Cons.IH [OF this] ne show ?thesis
      by (simp add: insert_sample_def Let_def)
  qed
qed

lemma serve1_inv: "store_inv st \<Longrightarrow> store_inv (serve1 st c)"
proof (cases c)
  case (Pair now call)
  assume inv: "store_inv st"
  show ?thesis
  proof (cases call)
    case (Upload_csv parsed)
    show ?thesis
    proof (cases parsed)
      case None
      with Pair Upload_csv inv show ?thesis by (simp add: ingest_csv_def)
    next
      case (Some tbl)
      obtain st' res' where eq:
        "ingest_rows (csv_header tbl) now (csv_rows tbl) (st, \<lparr>inserted_count = 0, skipped_count = 0\<rparr>)
           = (st', res')"
        by (cases "ingest_rows (csv_header tbl) now (csv_rows tbl)
                     (st, \<lparr>inserted_count = 0, skipped_count = 0\<rparr>)")
      have "store_inv st'"
        using ingest_rows_inv [OF inv, of "csv_header tbl" now "csv_rows tbl"] eq
        by (metis fst_conv)
      with Pair Upload_csv Some eq show ?thesis by (simp add: ingest_csv_def)
    qed
  next
    case (Post_annotation d)
    with Pair inv show ?thesis
      by (auto simp: create_annotation_def insert_annotation_def store_inv_def Let_def less_Suc_eq)
  next
    case (Post_comparison d)
    with Pair inv show ?thesis
      by (auto simp: create_comparison_def insert_comparison_def store_inv_def Let_def less_Suc_eq)
  qed
qed

lemma foldl_serve1_inv: "store_inv st \<Longrightarrow> store_inv (foldl serve1 st calls)"
  by (induction calls arbitrary: st) (auto simp: serve1_inv)

lemma serve_inv: "store_inv (serve calls)"
  unfolding serve_def by (rule foldl_serve1_inv) (simp add: store_inv_def empty_store_def)

lemma count_levels_total:
  "\<forall>a\<in>set as. quality_level a \<in> set quality_levels \<Longrightarrow>
   count_level as ''good'' + count_level as ''average'' + count_level as ''poor'' = length as"
  by (induction as) (auto simp: count_level_def quality_levels_def)

lemma nth_removed_distinct:
  assumes "distinct (map f xs)" "i < length xs" "j < length xs - 1"
  shows "(take i xs @ drop (Suc i) xs) ! j \<in> set xs \<and> f ((take i xs @ drop (Suc i) xs) ! j) \<noteq> f (xs ! i)"
proof -
  let ?ys = "take i xs @ drop (Suc i) xs"
  have len: "length ?ys = length xs - 1" using assms(2) by simp
  then have mem: "?ys ! j \<in> set ?ys" using assms(3) by (metis nth_mem)
  have xs: "xs = take i xs @ xs ! i # drop (Suc i) xs"
    using assms(2) by (rule id_take_nth_drop)
  have "distinct (map f (take i xs @ xs ! i # drop (Suc i) xs))"
    using assms(1) xs by simp
  then have "f (xs ! i) \<notin> f ` set ?ys" by auto
  with mem have "f (?ys ! j) \<noteq> f (xs ! i)" by (metis imageI)
  moreover have "?ys ! j \<in> set xs" using mem remove_nth_subset [of i xs] by auto
  ultimately show ?thesis by simp
qed

lemma pick_random_pair_two:
  assumes "distinct (map sample_id (samples st))" "2 \<le> length (samples st)"
  shows "\<exists>a b. pick_random_pair st r1 r2 = Inr [a, b] \<and> a \<in> set (samples st) \<and> b \<in> set (samples st)
           \<and> sample_id a \<noteq> sample_id b"
proof -
  let ?xs = "samples st"
  have i: "r1 mod length ?xs < length ?xs" and j: "r2 mod (length ?xs - 1) < length ?xs - 1"
    using assms(2) by (auto intro!: mod_less_divisor)
  from nth_removed_distinct [OF assms(1) i j] i assms(2) show ?thesis
    by (auto simp: pick_random_pair_def Let_def)
qed
lemma nth_removed:
  assumes "i < length xs" "j < length xs - 1"
  shows "(take i xs @ drop (Suc i) xs) ! j = xs ! (if j < i then j else Suc j)"
  using assms by (auto simp: nth_append min_def)

lemma pick_random_pair_positions:
  assumes "2 \<le> length (samples st)"
  shows "\<exists>i j. i < length (samples st) \<and> j < length (samples st) \<and> i \<noteq> j
           \<and> pick_random_pair st r1 r2 = Inr [samples st ! i, samples st ! j]"
proof -
  let ?xs = "samples st"
  let ?i = "r1 mod length ?xs"
  let ?j = "r2 mod (length ?xs - 1)"
  let ?j' = "if ?j < ?i then ?j else Suc ?j"
  have i: "?i < length ?xs" and j: "?j < length ?xs - 1"
    using assms by (auto intro!: mod_less_divisor)
  have "pick_random_pair st r1 r2 = Inr [?xs ! ?i, ?xs ! ?j']"
    using assms nth_removed [OF i j] by (simp add: pick_random_pair_def Let_def)
  moreover have "?j' < length ?xs" "?i \<noteq> ?j'" using j by auto
  ultimately show ?thesis using i by blast
qed

lemma sum_quality_distribution:
  "sum_list (map snd (quality_distribution (summarize st)))
     = count_level (annotations st) ''good'' + count_level (annotations st) ''average''
       + count_level (annotations st) ''poor''"
  by (simp add: summarize_def quality_levels_def)

section \<open>Properties of the dashboard\<close>

lemma js_div_finite: "b \<noteq> 0 \<Longrightarrow> js_div a b = Finite (a / b)"
  by (simp add: js_div_def)

text \<open>
  C4: with no text samples the progress is the number 0, and in every state the progress
  is a finite number: the division by \<open>textSamples.length\<close> happens only when the length
  is positive, so it never yields \<open>NaN\<close> or an infinity.
\<close>

theorem progress_defined:
  "(textSamples s = [] \<longrightarrow> progress s = Finite 0) \<and> (\<exists>q. progress s = Finite q)"
  by (simp add: progress_def js_div_finite js_times_def)

theorem progress_defined_witness:
  "progress initial = Finite 0"
  using progress_defined [of initial] by (simp add: initial_def)

text \<open>
  C10: checking a value appends exactly that value; unchecking it removes every
  occurrence and keeps the others in their order; and for a value that was not selected,
  checking and then unchecking gives the state back.
\<close>

theorem handleIssueToggle_set_like:
  "selectedIssues (handleIssueToggle v True s) = selectedIssues s @ [v]
   \<and> selectedIssues (handleIssueToggle v False s) = removeAll v (selectedIssues s)
   \<and> subseq (selectedIssues (handleIssueToggle v False s)) (selectedIssues s)
   \<and> (v \<notin> set (selectedIssues s) \<longrightarrow>
        handleIssueToggle v False (handleIssueToggle v True s) = s)"
proof -
  have off: "filter (\<lambda>issue. issue \<noteq> v) xs = removeAll v xs" for xs :: "string list"
    by (induction xs) auto
  have same: "v \<notin> set xs \<Longrightarrow> filter (\<lambda>issue. issue \<noteq> v) xs = xs" for xs :: "string list"
    by (induction xs) auto
  have sub: "subseq (removeAll v xs) xs" for xs :: "string list"
    by (metis removeAll_filter_not_eq subseq_filter_left)
  show ?thesis
    by (simp add: handleIssueToggle_def off same sub)
qed

theorem handleIssueToggle_set_like_witness:
  "selectedIssues (handleIssueToggle ''harmful_unsafe'' True
       (initial\<lparr>selectedIssues := [''grammar_error'']\<rparr>))
     = [''grammar_error'', ''harmful_unsafe'']
   \<and> handleIssueToggle ''harmful_unsafe'' False
       (handleIssueToggle ''harmful_unsafe'' True (initial\<lparr>selectedIssues := [''grammar_error'']\<rparr>))
     = initial\<lparr>selectedIssues := [''grammar_error'']\<rparr>"
  using handleIssueToggle_set_like [of "''harmful_unsafe''" "initial\<lparr>selectedIssues := [''grammar_error'']\<rparr>"]
  by simp

text \<open>
  C1: the selectable quality values are \<open>good\<close>, \<open>average\<close> and \<open>poor\<close>; with no quality
  selected \<open>submitAnnotation\<close> only shows a toast and sends nothing; whatever the user and
  the network do after the first render, every annotation body the dashboard posts goes to
  \<open>/annotations\<close> with one of the three values; and the service refuses any other value
  with a ValidationError, so every stored annotation has one of the three.
\<close>

theorem quality_level_enum:
  "map opt_value qualityOptions = [''good'', ''average'', ''poor'']
   \<and> (selectedQuality (ui w) = [] \<longrightarrow>
        emitted w (submitAnnotation w) = [ToastError ''Please select a quality level'']
        \<and> pending (submitAnnotation w) = pending w)
   \<and> (\<forall>p d. Post p (AnnotationBody d) \<in> set (effects (run mount evs)) \<longrightarrow>
        p = ''/annotations'' \<and> quality_level d \<in> {''good'', ''average'', ''poor''})
   \<and> (quality_level d \<notin> {''good'', ''average'', ''poor''} \<longrightarrow>
        (\<exists>m. create_annotation st now d = Inl (ValidationError m)))
   \<and> (\<forall>a\<in>set (annotations (serve calls)). quality_level a \<in> {''good'', ''average'', ''poor''})"
proof -
  have opts: "map opt_value qualityOptions = [''good'', ''average'', ''poor'']"
    by (simp add: qualityOptions_def)
  have guard: "emitted w (submitAnnotation w) = [ToastError ''Please select a quality level'']
        \<and> pending (submitAnnotation w) = pending w" if "selectedQuality (ui w) = []"
    using that by (simp add: submitAnnotation_def emitted_emit)
  have posts: "p = ''/annotations'' \<and> quality_level d \<in> {''good'', ''average'', ''poor''}"
    if "Post p (AnnotationBody d) \<in> set (effects (run mount evs))" for p d
    using that
  proof (rule run_annotation_posts [where P = quality_ok])
    show "quality_ok mount" by (simp add: quality_ok_def mount_ui initial_def)
    show "quality_ok (step w e)" if "quality_ok w" for w e using that by (rule step_quality_ok)
    show "p = ''/annotations'' \<and> quality_level d \<in> {''good'', ''average'', ''poor''}"
      if "Post p (AnnotationBody d) \<in> set (effects mount)" for p d
      using that by (simp add: mount_effects)
    show "''/annotations'' = ''/annotations''
        \<and> quality_level (mk_annotationData (ui w) cs) \<in> {''good'', ''average'', ''poor''}"
      if "quality_ok w" "selectedQuality (ui w) \<noteq> []" for w cs
      using that opts by (auto simp: quality_ok_def mk_annotationData_def)
  qed
  have refuse: "\<exists>m. create_annotation st now d = Inl (ValidationError m)"
    if "quality_level d \<notin> {''good'', ''average'', ''poor''}"
    using that by (simp add: create_annotation_def quality_levels_def)
  have stored: "quality_level a \<in> {''good'', ''average'', ''poor''}"
    if "a \<in> set (annotations (serve calls))" for a
    using serve_inv [of calls] that by (auto simp: store_inv_def quality_levels_def)
  from opts guard posts refuse stored show ?thesis by blast
qed

theorem quality_level_enum_witness:
  "Post ''/annotations''
        (AnnotationBody \<lparr>text_sample_id = ''a'', quality_level = ''good'', issue_tags = [],
                         annotation_notes = None\<rparr>)
     \<in> set (effects (run mount [Settle 0 (Samples [sample_a, sample_b]), ClickQuality 0,
                                 ClickSubmitAnnotation]))
   \<and> emitted mount (submitAnnotation mount) = [ToastError ''Please select a quality level'']
   \<and> (\<exists>m. create_annotation empty_store 0
             \<lparr>text_sample_id = ''x'', quality_level = ''great'', issue_tags = [],
              annotation_notes = None\<rparr> = Inl (ValidationError m))
   \<and> map quality_level (annotations (serve
          [(0, Post_annotation \<lparr>text_sample_id = ''x'', quality_level = ''great'', issue_tags = [],
                                annotation_notes = None\<rparr>),
           (1, Post_annotation \<lparr>text_sample_id = ''x'', quality_level = ''poor'', issue_tags = [],
                                annotation_notes = None\<rparr>)])) = [''poor'']"
proof -
  let ?evs = "[Settle 0 (Samples [sample_a, sample_b]), ClickQuality 0, ClickSubmitAnnotation]"
  let ?great = "\<lparr>text_sample_id = ''x'', quality_level = ''great'', issue_tags = [],
                 annotation_notes = None\<rparr>"
  note inst = quality_level_enum [of mount ?evs ?great empty_store 0 "[]"]
  have sent: "Post ''/annotations''
        (AnnotationBody \<lparr>text_sample_id = ''a'', quality_level = ''good'', issue_tags = [],
                         annotation_notes = None\<rparr>) \<in> set (effects (run mount ?evs))"
    by code_simp
  have unselected: "selectedQuality (ui mount) = []"
    by code_simp
  have great: "quality_level ?great \<notin> {''good'', ''average'', ''poor''}"
    by simp
  have stored: "map quality_level (annotations (serve
          [(0, Post_annotation ?great),
           (1, Post_annotation \<lparr>text_sample_id = ''x'', quality_level = ''poor'', issue_tags = [],
                                annotation_notes = None\<rparr>)])) = [''poor'']"
    by code_simp
  from inst sent unselected great stored show ?thesis by blast
qed

text \<open>
  C2: whatever the user and the network do after the first render, every comparison the
  dashboard posts names as better one of its own two texts. A step posts a comparison
  only while exactly two pair texts are loaded, with \<open>text_a_id\<close> and \<open>text_b_id\<close> the
  identifiers of those two texts; with any other number of pair texts
  \<open>submitPairwiseComparison\<close> changes nothing. The service refuses a comparison whose
  better text is neither of the two, or whose two texts are the same, with a
  ValidationError, so no stored comparison is of that kind.
\<close>

theorem better_text_id_membership:
  "(\<forall>p d. Post p (ComparisonBody d) \<in> set (effects (run mount evs)) \<longrightarrow>
        p = ''/pairwise-comparisons'' \<and> better_text_id d \<in> {text_a_id d, text_b_id d})
   \<and> (\<forall>p d. Post p (ComparisonBody d) \<in> set (emitted w (step w e)) \<longrightarrow>
        length (pairwiseTexts (ui w)) = 2
        \<and> text_a_id d = sample_id (pairwiseTexts (ui w) ! 0)
        \<and> text_b_id d = sample_id (pairwiseTexts (ui w) ! 1)
        \<and> better_text_id d \<in> {text_a_id d, text_b_id d})
   \<and> (length (pairwiseTexts (ui w)) \<noteq> 2 \<longrightarrow> submitPairwiseComparison b w = w)
   \<and> (better_text_id c \<notin> {text_a_id c, text_b_id c} \<or> text_a_id c = text_b_id c \<longrightarrow>
        (\<exists>m. create_comparison st now c = Inl (ValidationError m)))
   \<and> (\<forall>x\<in>set (comparisons (serve calls)).
        better_text_id x \<in> {text_a_id x, text_b_id x} \<and> text_a_id x \<noteq> text_b_id x)"
proof -
  have posts: "p = ''/pairwise-comparisons'' \<and> better_text_id d \<in> {text_a_id d, text_b_id d}"
    if "Post p (ComparisonBody d) \<in> set (effects (run mount evs))" for p d
    using run_comparison_posts [OF that] by (auto simp: mount_effects)
  have one: "length (pairwiseTexts (ui w)) = 2
        \<and> text_a_id d = sample_id (pairwiseTexts (ui w) ! 0)
        \<and> text_b_id d = sample_id (pairwiseTexts (ui w) ! 1)
        \<and> better_text_id d \<in> {text_a_id d, text_b_id d}"
    if "Post p (ComparisonBody d) \<in> set (emitted w (step w e))" for p d
    using step_emits_comparison [OF that] comparison_members [of "ui w" _ d] by blast
  have guard: "submitPairwiseComparison b w = w" if "length (pairwiseTexts (ui w)) \<noteq> 2"
    using that by (simp add: submitPairwiseComparison_def)
  have refuse: "\<exists>m. create_comparison st now c = Inl (ValidationError m)"
    if "better_text_id c \<notin> {text_a_id c, text_b_id c} \<or> text_a_id c = text_b_id c"
    using that by (auto simp: create_comparison_def)
  have stored: "better_text_id x \<in> {text_a_id x, text_b_id x} \<and> text_a_id x \<noteq> text_b_id x"
    if "x \<in> set (comparisons (serve calls))" for x
    using serve_inv [of calls] that by (auto simp: store_inv_def)
  from posts one guard refuse stored show ?thesis by blast
qed

theorem better_text_id_membership_witness:
  "Post ''/pairwise-comparisons''
        (ComparisonBody \<lparr>text_a_id = ''a'', text_b_id = ''b'', better_text_id = ''b''\<rparr>)
     \<in> set (effects (run mount [ClickLoadPair, Settle 2 (Samples [sample_a, sample_b]),
                                 ClickSelectText 1]))
   \<and> submitPairwiseComparison ''a'' mount = mount
   \<and> (\<exists>m. create_comparison empty_store 0
             \<lparr>text_a_id = ''A'', text_b_id = ''B'', better_text_id = ''C''\<rparr>
           = Inl (ValidationError m))
   \<and> map better_text_id (comparisons (serve
          [(0, Post_comparison \<lparr>text_a_id = ''A'', text_b_id = ''B'', better_text_id = ''C''\<rparr>),
           (1, Post_comparison \<lparr>text_a_id = ''A'', text_b_id = ''A'', better_text_id = ''A''\<rparr>),
           (2, Post_comparison \<lparr>text_a_id = ''A'', text_b_id = ''B'', better_text_id = ''B''\<rparr>)]))
       = [''B'']"
proof -
  let ?evs = "[ClickLoadPair, Settle 2 (Samples [sample_a, sample_b]), ClickSelectText 1]"
  let ?c = "\<lparr>text_a_id = ''A'', text_b_id = ''B'', better_text_id = ''C''\<rparr>"
  note inst = better_text_id_membership [of ?evs mount "ClickLoadPair" "''a''" ?c empty_store 0 "[]"]
  have sent: "Post ''/pairwise-comparisons''
        (ComparisonBody \<lparr>text_a_id = ''a'', text_b_id = ''b'', better_text_id = ''b''\<rparr>)
     \<in> set (effects (run mount ?evs))"
    by code_simp
  have none_loaded: "length (pairwiseTexts (ui mount)) \<noteq> 2"
    by code_simp
  have outsider: "better_text_id ?c \<notin> {text_a_id ?c, text_b_id ?c} \<or> text_a_id ?c = text_b_id ?c"
    by simp
  have stored: "map better_text_id (comparisons (serve
          [(0, Post_comparison ?c),
           (1, Post_comparison \<lparr>text_a_id = ''A'', text_b_id = ''A'', better_text_id = ''A''\<rparr>),
           (2, Post_comparison \<lparr>text_a_id = ''A'', text_b_id = ''B'', better_text_id = ''B''\<rparr>)]))
       = [''B'']"
    by code_simp
  from inst sent none_loaded outsider stored show ?thesis by blast
qed

text \<open>
  C5: the issue values are the four of \<open>issueOptions\<close>; the selected issues are sent as
  they are; whatever the user and the network do after the first render, the issue tags of
  every annotation the dashboard posts are among the four values; and when every checkbox
  reports the opposite of what it showed, no tag occurs twice.
\<close>

theorem issue_tags_enum:
  "map opt_value issueOptions
     = [''grammar_error'', ''irrelevant_content'', ''harmful_unsafe'', ''incomplete_truncated'']
   \<and> issue_tags (mk_annotationData s cs) = selectedIssues s
   \<and> (\<forall>p d. Post p (AnnotationBody d) \<in> set (effects (run mount evs)) \<longrightarrow>
        set (issue_tags d)
          \<subseteq> {''grammar_error'', ''irrelevant_content'', ''harmful_unsafe'', ''incomplete_truncated''})
   \<and> (controlled_run mount evs \<longrightarrow>
        (\<forall>p d. Post p (AnnotationBody d) \<in> set (effects (run mount evs)) \<longrightarrow>
           distinct (issue_tags d)))"
proof -
  have opts: "map opt_value issueOptions
     = [''grammar_error'', ''irrelevant_content'', ''harmful_unsafe'', ''incomplete_truncated'']"
    by (simp add: issueOptions_def)
  have verbatim: "issue_tags (mk_annotationData s cs) = selectedIssues s"
    by (simp add: mk_annotationData_def)
  have posts: "set (issue_tags d)
          \<subseteq> {''grammar_error'', ''irrelevant_content'', ''harmful_unsafe'', ''incomplete_truncated''}"
    if "Post p (AnnotationBody d) \<in> set (effects (run mount evs))" for p d
    using that
  proof (rule run_annotation_posts [where P = issues_ok])
    show "issues_ok mount" by (simp add: issues_ok_def mount_ui initial_def)
    show "issues_ok (step w e)" if "issues_ok w" for w e using that by (rule step_issues_ok)
    show "set (issue_tags d)
          \<subseteq> {''grammar_error'', ''irrelevant_content'', ''harmful_unsafe'', ''incomplete_truncated''}"
      if "Post p (AnnotationBody d) \<in> set (effects mount)" for p d
      using that by (simp add: mount_effects)
    show "set (issue_tags (mk_annotationData (ui w) cs))
          \<subseteq> {''grammar_error'', ''irrelevant_content'', ''harmful_unsafe'', ''incomplete_truncated''}"
      if "issues_ok w" for w cs
      using that opts by (auto simp: issues_ok_def mk_annotationData_def)
  qed
  have no_duplicates: "distinct (issue_tags d)"
    if "controlled_run mount evs" "Post p (AnnotationBody d) \<in> set (effects (run mount evs))" for p d
    using that(2,1)
    by (rule run_issue_tags_distinct) (simp_all add: mount_ui initial_def mount_effects)
  from opts verbatim posts no_duplicates show ?thesis by blast
qed

theorem issue_tags_enum_witness:
  "controlled_run mount
      [Settle 0 (Samples [sample_a, sample_b]), ClickQuality 2, CheckIssue 2 True,
       CheckIssue 0 True, CheckIssue 2 False, CheckIssue 3 True, ClickSubmitAnnotation]
   \<and> Post ''/annotations''
        (AnnotationBody \<lparr>text_sample_id = ''a'', quality_level = ''poor'',
                         issue_tags = [''grammar_error'', ''incomplete_truncated''],
                         annotation_notes = None\<rparr>)
     \<in> set (effects (run mount
          [Settle 0 (Samples [sample_a, sample_b]), ClickQuality 2, CheckIssue 2 True,
           CheckIssue 0 True, CheckIssue 2 False, CheckIssue 3 True, ClickSubmitAnnotation]))
   \<and> set [''grammar_error'', ''incomplete_truncated'']
       \<subseteq> {''grammar_error'', ''irrelevant_content'', ''harmful_unsafe'', ''incomplete_truncated''}
   \<and> distinct [''grammar_error'', ''incomplete_truncated'']"
proof -
  let ?evs = "[Settle 0 (Samples [sample_a, sample_b]), ClickQuality 2, CheckIssue 2 True,
       CheckIssue 0 True, CheckIssue 2 False, CheckIssue 3 True, ClickSubmitAnnotation]"
  let ?d = "\<lparr>text_sample_id = ''a'', quality_level = ''poor'',
                         issue_tags = [''grammar_error'', ''incomplete_truncated''],
                         annotation_notes = None\<rparr>"
  note inst = issue_tags_enum [of initial sample_a ?evs]
  have controlled: "controlled_run mount ?evs"
    by code_simp
  have sent: "Post ''/annotations'' (AnnotationBody ?d) \<in> set (effects (run mount ?evs))"
    by code_simp
  have tags: "issue_tags ?d = [''grammar_error'', ''incomplete_truncated'']"
    by simp
  note subset = inst [THEN conjunct2, THEN conjunct2, THEN conjunct1, rule_format, OF sent]
  note no_dup = inst [THEN conjunct2, THEN conjunct2, THEN conjunct2, rule_format, OF controlled sent]
  show ?thesis
    using controlled sent subset no_dup unfolding tags by (intro conjI)
qed

text \<open>
  C9: in the body \<open>submitAnnotation\<close> builds, \<open>notes\<close> is null exactly when the notes text
  is the empty string, and is the text itself otherwise; this holds for every annotation
  body a step of the dashboard posts.
\<close>

theorem notes_null_iff_empty:
  "(annotation_notes (mk_annotationData s cs) = None \<longleftrightarrow> notesText s = [])
   \<and> (notesText s \<noteq> [] \<longrightarrow> annotation_notes (mk_annotationData s cs) = Some (notesText s))
   \<and> (\<forall>p d. Post p (AnnotationBody d) \<in> set (emitted w (step w e)) \<longrightarrow>
        (annotation_notes d = None \<longleftrightarrow> notesText (ui w) = [])
        \<and> (notesText (ui w) \<noteq> [] \<longrightarrow> annotation_notes d = Some (notesText (ui w))))
   \<and> (\<forall>p d. Post p (AnnotationBody d) \<in> set (emitted w (submitAnnotation w)) \<longrightarrow>
        (annotation_notes d = None \<longleftrightarrow> notesText (ui w) = [])
        \<and> (notesText (ui w) \<noteq> [] \<longrightarrow> annotation_notes d = Some (notesText (ui w))))"
proof -
  have body: "(annotation_notes (mk_annotationData s cs) = None \<longleftrightarrow> notesText s = [])
      \<and> (notesText s \<noteq> [] \<longrightarrow> annotation_notes (mk_annotationData s cs) = Some (notesText s))"
    for s cs
    by (simp add: mk_annotationData_def)
  have stepped: "(annotation_notes d = None \<longleftrightarrow> notesText (ui w) = [])
        \<and> (notesText (ui w) \<noteq> [] \<longrightarrow> annotation_notes d = Some (notesText (ui w)))"
    if "Post p (AnnotationBody d) \<in> set (emitted w (step w e))" for p d
    using step_emits_annotation [OF that] by (auto simp: mk_annotationData_def split: if_splits)
  have handler: "(annotation_notes d = None \<longleftrightarrow> notesText (ui w) = [])
        \<and> (notesText (ui w) \<noteq> [] \<longrightarrow> annotation_notes d = Some (notesText (ui w)))"
    if "Post p (AnnotationBody d) \<in> set (emitted w (submitAnnotation w))" for p d
  proof -
    from that obtain cs where "d = mk_annotationData (ui w) cs"
      by (auto simp: emitted_def submitAnnotation_def Let_def split: if_splits option.splits)
    then show ?thesis by (simp add: mk_annotationData_def)
  qed
  from body stepped handler show ?thesis by blast
qed

theorem notes_null_iff_empty_witness:
  "Post ''/annotations''
      (AnnotationBody \<lparr>text_sample_id = ''a'', quality_level = ''average'', issue_tags = [],
                       annotation_notes = Some ''ok''\<rparr>)
     \<in> set (emitted typed_ok (submitAnnotation typed_ok))
   \<and> notesText (ui typed_ok) = ''ok''
   \<and> Post ''/annotations''
      (AnnotationBody \<lparr>text_sample_id = ''a'', quality_level = ''average'', issue_tags = [],
                       annotation_notes = None\<rparr>)
     \<in> set (emitted (step typed_ok (TypeNotes [])) (submitAnnotation (step typed_ok (TypeNotes []))))
   \<and> notesText (ui (step typed_ok (TypeNotes []))) = []"
proof -
  let ?d = "\<lparr>text_sample_id = ''a'', quality_level = ''average'', issue_tags = [],
             annotation_notes = Some ''ok''\<rparr>"
  let ?n = "\<lparr>text_sample_id = ''a'', quality_level = ''average'', issue_tags = [],
             annotation_notes = None\<rparr>"
  let ?w = "step typed_ok (TypeNotes [])"
  have sent: "Post ''/annotations'' (AnnotationBody ?d) \<in> set (emitted typed_ok (submitAnnotation typed_ok))"
    by code_simp
  have sent_null: "Post ''/annotations'' (AnnotationBody ?n) \<in> set (emitted ?w (submitAnnotation ?w))"
    by code_simp
  note a = notes_null_iff_empty [of initial sample_a typed_ok ClickPrev,
      THEN conjunct2, THEN conjunct2, THEN conjunct2, rule_format, OF sent]
  note b = notes_null_iff_empty [of initial sample_a ?w ClickPrev,
      THEN conjunct2, THEN conjunct2, THEN conjunct2, rule_format, OF sent_null]
  have "notesText (ui typed_ok) \<noteq> []"
    using a [THEN conjunct1] by simp
  then have 1: "notesText (ui typed_ok) = ''ok''"
    using a [THEN conjunct2] by simp
  have 2: "notesText (ui ?w) = []"
    using b [THEN conjunct1] by simp
  from sent 1 sent_null 2 show ?thesis by (intro conjI)
qed

text \<open>
  C8: from a state whose index names a loaded sample, with no reload of the samples
  pending, every sequence of clicks and settled calls that chooses no file to upload
  leaves the samples as they are and the index within \<open>0 .. textSamples.length - 1\<close>.
  The calls that settle may do so in any order and between any clicks: an annotation
  saved after the user has moved on sets the index from the values of its own click.
  (The first load of a non-empty list of samples gives such a state: \<open>first_load_nav\<close>.)
  Previous computes \<open>max(0, index - 1)\<close>, Next computes \<open>min(length - 1, index + 1)\<close>,
  both keep the index in range even without the \<open>disabled\<close> attribute, and the
  continuation of \<open>submitAnnotation\<close> moves the index only when the save succeeded and
  its index was below \<open>length - 1\<close>.
\<close>

theorem currentSampleIndex_in_range:
  assumes "index_in_range w"
    and "\<forall>k\<in>set (pending w). keeps_samples (textSamples (ui w)) k"
    and "\<forall>e\<in>set evs. \<not> is_upload e"
  shows "index_in_range (run w evs)
       \<and> textSamples (ui (run w evs)) = textSamples (ui w)
       \<and> currentSampleIndex (prev_sample_onClick (ui w)) = max 0 (currentSampleIndex (ui w) - 1)
       \<and> currentSampleIndex (next_sample_onClick (ui w))
           = min (int (length (textSamples (ui w))) - 1) (currentSampleIndex (ui w) + 1)
       \<and> index_in_range (setState prev_sample_onClick w)
       \<and> index_in_range (setState next_sample_onClick w)
       \<and> currentSampleIndex (ui (submitAnnotation_resume i n r w))
           = (if r \<noteq> Rejected \<and> i < int n - 1 then i + 1 else currentSampleIndex (ui w))"
proof -
  have "nav_inv (textSamples (ui w)) w"
    using assms(1,2) by (simp add: nav_inv_def)
  then have "nav_inv (textSamples (ui w)) (run w evs)"
    using assms(3) by (rule run_nav)
  then have run: "index_in_range (run w evs) \<and> textSamples (ui (run w evs)) = textSamples (ui w)"
    by (simp add: nav_inv_def)
  have handlers: "index_in_range (setState prev_sample_onClick w)
       \<and> index_in_range (setState next_sample_onClick w)"
    using assms(1) by (auto simp: index_in_range_def prev_sample_onClick_def next_sample_onClick_def)
  have advance: "currentSampleIndex (ui (submitAnnotation_resume i n r w))
           = (if r \<noteq> Rejected \<and> i < int n - 1 then i + 1 else currentSampleIndex (ui w))"
    by (cases r) (simp_all add: Let_def fetch_defs)
  from run handlers advance show ?thesis
    by (simp add: prev_sample_onClick_def next_sample_onClick_def)
qed

theorem currentSampleIndex_in_range_witness:
  "index_in_range loaded
   \<and> currentSampleIndex (ui (run loaded clicks)) = 1
   \<and> index_in_range (run loaded clicks)
   \<and> length (textSamples (ui (run loaded clicks))) = 2"
proof -
  have 1: "index_in_range loaded"
    by code_simp
  have 2: "\<forall>k\<in>set (pending loaded). keeps_samples (textSamples (ui loaded)) k"
    by code_simp
  have 3: "\<forall>e\<in>set clicks. \<not> is_upload e"
    by code_simp
  have 4: "currentSampleIndex (ui (run loaded clicks)) = 1"
    by code_simp
  have 5: "length (textSamples (ui loaded)) = 2"
    by code_simp
  note inst = currentSampleIndex_in_range [OF 1 2 3, of 0 0 Rejected]
  from inst have 6: "length (textSamples (ui (run loaded clicks))) = 2"
    using 5 by simp
  from 1 4 inst [THEN conjunct1] 6 show ?thesis by (intro conjI)
qed

section \<open>Properties of the service\<close>

text \<open>
  C3: an upload that the CSV reader could read never fails; its \<open>inserted_count\<close> is the
  number of data rows whose \<open>text\<close> is not empty after trimming, the other rows are
  skipped and counted, and the store grows by exactly the inserted rows. Only a file that
  is not CSV at all fails, with a ValidationError.
\<close>

theorem ingest_csv_inserted_count:
  "(\<exists>res st'. ingest_csv st now (Some tbl) = Inr (res, st')
      \<and> inserted_count res = length (filter (nonempty_text (csv_header tbl)) (csv_rows tbl))
      \<and> skipped_count res
          = length (filter (\<lambda>row. \<not> nonempty_text (csv_header tbl) row) (csv_rows tbl))
      \<and> length (samples st') = length (samples st) + inserted_count res)
   \<and> (\<exists>m. ingest_csv st now None = Inl (ValidationError m))"
proof -
  obtain st' res where eq:
    "ingest_rows (csv_header tbl) now (csv_rows tbl) (st, \<lparr>inserted_count = 0, skipped_count = 0\<rparr>)
       = (st', res)"
    by (cases "ingest_rows (csv_header tbl) now (csv_rows tbl)
                 (st, \<lparr>inserted_count = 0, skipped_count = 0\<rparr>)")
  from ingest_rows_counts [OF eq] eq show ?thesis
    by (simp add: ingest_csv_def)
qed

theorem ingest_csv_inserted_count_witness:
  "(\<exists>res st'. ingest_csv empty_store 7 (Some hello_csv) = Inr (res, st')
      \<and> inserted_count res = 1 \<and> skipped_count res = 1 \<and> length (samples st') = 1)
   \<and> (\<exists>res st'. ingest_csv empty_store 7 (Some three_rows_csv) = Inr (res, st')
      \<and> inserted_count res = 3 \<and> skipped_count res = 2 \<and> length (samples st') = 3)"
proof -
  have a: "length (filter (nonempty_text (csv_header hello_csv)) (csv_rows hello_csv)) = 1"
    by code_simp
  have b: "length (filter (\<lambda>row. \<not> nonempty_text (csv_header hello_csv) row) (csv_rows hello_csv)) = 1"
    by code_simp
  have c: "length (filter (nonempty_text (csv_header three_rows_csv)) (csv_rows three_rows_csv)) = 3"
    by code_simp
  have d: "length (filter (\<lambda>row. \<not> nonempty_text (csv_header three_rows_csv) row)
              (csv_rows three_rows_csv)) = 2"
    by code_simp
  have e: "length (samples empty_store) = 0"
    by (simp add: empty_store_def)
  from ingest_csv_inserted_count [of empty_store 7 hello_csv, THEN conjunct1]
  have 1: "\<exists>res st'. ingest_csv empty_store 7 (Some hello_csv) = Inr (res, st')
      \<and> inserted_count res = 1 \<and> skipped_count res = 1 \<and> length (samples st') = 1"
    unfolding a b e by auto
  from ingest_csv_inserted_count [of empty_store 7 three_rows_csv, THEN conjunct1]
  have 2: "\<exists>res st'. ingest_csv empty_store 7 (Some three_rows_csv) = Inr (res, st')
      \<and> inserted_count res = 3 \<and> skipped_count res = 2 \<and> length (samples st') = 3"
    unfolding c d e by auto
  from 1 2 show ?thesis by (intro conjI)
qed

text \<open>
  C6: the quality distribution has exactly the keys \<open>good\<close>, \<open>average\<close>, \<open>poor\<close>, each
  with the number of annotations of that level (0 when there is none); its counts sum to
  \<open>total_annotations\<close> whenever every stored annotation has one of the three levels, and
  so for every store that requests have built.
\<close>

theorem quality_distribution_total:
  "map fst (quality_distribution (summarize st)) = [''good'', ''average'', ''poor'']
   \<and> (\<forall>q\<in>{''good'', ''average'', ''poor''}.
        map_of (quality_distribution (summarize st)) q
          = Some (length (filter (\<lambda>a. quality_level a = q) (annotations st))))
   \<and> ((\<forall>a\<in>set (annotations st). quality_level a \<in> {''good'', ''average'', ''poor''}) \<longrightarrow>
        sum_list (map snd (quality_distribution (summarize st))) = total_annotations (summarize st))
   \<and> sum_list (map snd (quality_distribution (summarize (serve calls))))
       = total_annotations (summarize (serve calls))"
proof -
  have keys: "map fst (quality_distribution (summarize st)) = [''good'', ''average'', ''poor'']"
    by (simp add: summarize_def quality_levels_def)
  have counts: "map_of (quality_distribution (summarize st)) q
          = Some (length (filter (\<lambda>a. quality_level a = q) (annotations st)))"
    if "q \<in> {''good'', ''average'', ''poor''}" for q
    using that by (auto simp: summarize_def quality_levels_def count_level_def)
  have total: "sum_list (map snd (quality_distribution (summarize st))) = total_annotations (summarize st)"
    if "\<forall>a\<in>set (annotations st). quality_level a \<in> set quality_levels" for st
    using count_levels_total [OF that] by (simp add: sum_quality_distribution) (simp add: summarize_def)
  have "sum_list (map snd (quality_distribution (summarize (serve calls))))
       = total_annotations (summarize (serve calls))"
    using serve_inv [of calls] by (intro total) (simp add: store_inv_def)
  with keys counts total [of st] show ?thesis
    by (simp add: quality_levels_def)
qed

theorem quality_distribution_total_witness:
  "quality_distribution (summarize (serve four_posts)) = [(''good'', 2), (''average'', 0), (''poor'', 1)]
   \<and> total_annotations (summarize (serve four_posts)) = 3
   \<and> map_of (quality_distribution (summarize (serve four_posts))) ''average'' = Some 0
   \<and> sum_list (map snd (quality_distribution (summarize (serve four_posts)))) = 3"
proof -
  have dist: "quality_distribution (summarize (serve four_posts))
               = [(''good'', 2), (''average'', 0), (''poor'', 1)]"
    by code_simp
  have total: "total_annotations (summarize (serve four_posts)) = 3"
    by code_simp
  have levels: "\<forall>a\<in>set (annotations (serve four_posts)).
                  quality_level a \<in> {''good'', ''average'', ''poor''}"
    by code_simp
  have none: "length (filter (\<lambda>a. quality_level a = ''average'') (annotations (serve four_posts))) = 0"
    by code_simp
  note inst = quality_distribution_total [of "serve four_posts" four_posts]
  have avg: "map_of (quality_distribution (summarize (serve four_posts))) ''average'' = Some 0"
    using inst [THEN conjunct2, THEN conjunct1, rule_format, of "''average''"] unfolding none by simp
  have sum: "sum_list (map snd (quality_distribution (summarize (serve four_posts)))) = 3"
    using inst [THEN conjunct2, THEN conjunct2, THEN conjunct1, THEN mp, OF levels]
    unfolding total .
  from dist total avg sum show ?thesis by (intro conjI)
qed

text \<open>
  C7: with fewer than two samples the random pair is the empty list, and it is never an
  error; with two or more it is two samples from different positions of the store, with
  different identifiers in every store that requests have built. On the dashboard,
  \<open>submitPairwiseComparison\<close> does nothing unless exactly two pair texts are loaded, no
  step posts a comparison otherwise, and the loaded pair texts are always the initial
  empty list or a list some call returned.
\<close>

theorem random_pair_empty_or_two:
  "(length (samples st) < 2 \<longrightarrow> pick_random_pair st r1 r2 = Inr [])
   \<and> (\<exists>xs. pick_random_pair st r1 r2 = Inr xs)
   \<and> (2 \<le> length (samples st) \<longrightarrow>
        (\<exists>i j. i < length (samples st) \<and> j < length (samples st) \<and> i \<noteq> j
           \<and> pick_random_pair st r1 r2 = Inr [samples st ! i, samples st ! j]))
   \<and> (2 \<le> length (samples (serve calls)) \<longrightarrow>
        (\<exists>a b. pick_random_pair (serve calls) r1 r2 = Inr [a, b]
           \<and> a \<in> set (samples (serve calls)) \<and> b \<in> set (samples (serve calls))
           \<and> sample_id a \<noteq> sample_id b))
   \<and> (length (pairwiseTexts (ui w)) \<noteq> 2 \<longrightarrow> submitPairwiseComparison b w = w)
   \<and> (\<forall>p d. Post p (ComparisonBody d) \<in> set (emitted w (step w e)) \<longrightarrow>
        length (pairwiseTexts (ui w)) = 2)
   \<and> (pairwiseTexts (ui (run mount evs)) = []
        \<or> (\<exists>k. Settle k (Samples (pairwiseTexts (ui (run mount evs)))) \<in> set evs))"
proof -
  have few: "pick_random_pair st r1 r2 = Inr []" if "length (samples st) < 2"
    using that by (simp add: pick_random_pair_def)
  have no_error: "\<exists>xs. pick_random_pair st r1 r2 = Inr xs"
    by (simp add: pick_random_pair_def Let_def)
  have positions: "\<exists>i j. i < length (samples st) \<and> j < length (samples st) \<and> i \<noteq> j
           \<and> pick_random_pair st r1 r2 = Inr [samples st ! i, samples st ! j]"
    if "2 \<le> length (samples st)"
    using that by (rule pick_random_pair_positions)
  have two: "\<exists>a b. pick_random_pair (serve calls) r1 r2 = Inr [a, b]
           \<and> a \<in> set (samples (serve calls)) \<and> b \<in> set (samples (serve calls))
           \<and> sample_id a \<noteq> sample_id b"
    if "2 \<le> length (samples (serve calls))"
  proof (rule pick_random_pair_two [OF _ that])
    show "distinct (map sample_id (samples (serve calls)))"
      using serve_inv [of calls] by (simp add: store_inv_def)
  qed
  have guard: "submitPairwiseComparison b w = w" if "length (pairwiseTexts (ui w)) \<noteq> 2"
    using that by (simp add: submitPairwiseComparison_def)
  have posts: "length (pairwiseTexts (ui w)) = 2"
    if "Post p (ComparisonBody d) \<in> set (emitted w (step w e))" for p d
    using step_emits_comparison [OF that] by blast
  have returned: "pairwiseTexts (ui (run mount evs)) = []
        \<or> (\<exists>k. Settle k (Samples (pairwiseTexts (ui (run mount evs)))) \<in> set evs)"
    using run_pairwiseTexts [of mount evs] by (simp add: mount_ui initial_def)
  from few no_error positions two guard posts returned show ?thesis by blast
qed

theorem random_pair_empty_or_two_witness:
  "pick_random_pair empty_store 4 5 = Inr []
   \<and> pick_random_pair (serve [(7, Upload_csv (Some hello_csv))]) 4 5 = Inr []
   \<and> (\<exists>a b. pick_random_pair (serve [(7, Upload_csv (Some three_rows_csv))]) 4 5 = Inr [a, b]
         \<and> sample_id a \<noteq> sample_id b)
   \<and> map sample_text (projr (pick_random_pair (serve [(7, Upload_csv (Some three_rows_csv))]) 4 5))
       = ['' Two '', ''Three'']
   \<and> submitPairwiseComparison ''a'' mount = mount
   \<and> Post ''/pairwise-comparisons''
         (ComparisonBody \<lparr>text_a_id = ''a'', text_b_id = ''b'', better_text_id = ''a''\<rparr>)
       \<in> set (emitted pair_loaded (step pair_loaded (ClickSelectText 0)))
   \<and> length (pairwiseTexts (ui pair_loaded)) = 2"
proof -
  let ?one = "serve [(7, Upload_csv (Some hello_csv))]"
  let ?three = "serve [(7, Upload_csv (Some three_rows_csv))]"
  have none: "length (samples empty_store) < 2"
    by (simp add: empty_store_def)
  have one: "length (samples ?one) < 2"
    by code_simp
  have three: "2 \<le> length (samples ?three)"
    by code_simp
  have drawn: "map sample_text (projr (pick_random_pair ?three 4 5)) = ['' Two '', ''Three'']"
    by code_simp
  have unloaded: "length (pairwiseTexts (ui mount)) \<noteq> 2"
    by code_simp
  have sent: "Post ''/pairwise-comparisons''
         (ComparisonBody \<lparr>text_a_id = ''a'', text_b_id = ''b'', better_text_id = ''a''\<rparr>)
       \<in> set (emitted pair_loaded (step pair_loaded (ClickSelectText 0)))"
    by code_simp
  note inst = random_pair_empty_or_two
  have 1: "pick_random_pair empty_store 4 5 = Inr []"
    using inst [of empty_store 4 5 "[]" mount "''a''" ClickPrev "[]", THEN conjunct1] none by simp
  have 2: "pick_random_pair ?one 4 5 = Inr []"
    using inst [of ?one 4 5 "[]" mount "''a''" ClickPrev "[]", THEN conjunct1] one by simp
  from inst [of empty_store 4 5 "[(7, Upload_csv (Some three_rows_csv))]" mount "''a''" ClickPrev "[]",
      THEN conjunct2, THEN conjunct2, THEN conjunct2, THEN conjunct1, rule_format, OF three]
  have 3: "\<exists>a b. pick_random_pair ?three 4 5 = Inr [a, b] \<and> sample_id a \<noteq> sample_id b"
    by blast
  have 4: "submitPairwiseComparison ''a'' mount = mount"
    using inst [of empty_store 4 5 "[]" mount "''a''" ClickPrev "[]",
      THEN conjunct2, THEN conjunct2, THEN conjunct2, THEN conjunct2, THEN conjunct1] unloaded
    by simp
  note 5 = inst [of empty_store 4 5 "[]" pair_loaded "''a''" "ClickSelectText 0" "[]",
      THEN conjunct2, THEN conjunct2, THEN conjunct2, THEN conjunct2, THEN conjunct2,
      THEN conjunct1, rule_format, OF sent]
  from 1 2 3 drawn 4 sent 5 show ?thesis by (intro conjI)
qed

end
